theory Spec2Isabelle
  imports Main "HOL-Library.Word"
begin

unbundle bit_operations_syntax

section \<open>The allocator of myAllocator.c\<close>

text \<open>
  The arena of \<^verbatim>\<open>myAllocator.c\<close> is a range of addresses tiled by blocks. Each block
  starts with a \<^verbatim>\<open>BlockPrefix_t\<close> (fields \<^verbatim>\<open>suffix\<close> and \<^verbatim>\<open>allocated\<close>) and ends with a
  \<^verbatim>\<open>BlockSuffix_t\<close> (field \<^verbatim>\<open>prefix\<close>). The model keeps one map per field, indexed by the
  address of the record, the two global bounds, the growth switch, the program break
  that \<^verbatim>\<open>sbrk\<close> moves, and the bytes that the resize functions copy.

  Addresses and \<^verbatim>\<open>size_t\<close> values are integers read modulo \<open>2 ^ 64\<close> (\<open>u64\<close>); values of
  the C type \<^verbatim>\<open>int\<close> are integers wrapped to 32 bits, two's complement (\<open>s32\<close>).
\<close>

subsection \<open>Machine integers\<close>

definition u64 :: "int \<Rightarrow> int" where
  "u64 x = x mod 2 ^ 64"

definition s32 :: "int \<Rightarrow> int" where
  "s32 x = (x + 2 ^ 31) mod 2 ^ 32 - 2 ^ 31"

definition INT_MAX :: int where
  "INT_MAX = 2 ^ 31 - 1"

text \<open>\<^verbatim>\<open>#define align8(x) (((x)+7) & ~7)\<close>, at type \<^verbatim>\<open>size_t\<close> and at type \<^verbatim>\<open>int\<close>.\<close>

definition align8 :: "int \<Rightarrow> int" where
  "align8 x = u64 (x + 7) AND NOT 7"

definition align8_int :: "int \<Rightarrow> int" where
  "align8_int x = s32 (x + 7) AND NOT 7"

text \<open>
  Modelled from the spec: \<^verbatim>\<open>myAllocator.h\<close>, which declares \<^verbatim>\<open>BlockPrefix_t\<close> and
  \<^verbatim>\<open>BlockSuffix_t\<close>, is not among the sources. The spec calls the header and footer sizes
  architecture-fixed constants rounded up to a multiple of 8; a prefix holds a pointer
  and an \<^verbatim>\<open>int\<close>, a suffix holds a pointer, which on LP64 gives 16 and 8 bytes (the test
  driver's comments, a 56504-byte block for \<^verbatim>\<open>malloc(56500)\<close>, agree).
\<close>

definition sizeof_BlockPrefix_t :: int where
  "sizeof_BlockPrefix_t = 16"

definition sizeof_BlockSuffix_t :: int where
  "sizeof_BlockSuffix_t = 8"

definition prefixSize :: int where
  "prefixSize = align8 sizeof_BlockPrefix_t"

definition suffixSize :: int where
  "suffixSize = align8 sizeof_BlockSuffix_t"

definition DEFAULT_BRKSIZE :: int where
  "DEFAULT_BRKSIZE = 1048576"

subsection \<open>State and errors\<close>

record state =
  arenaBegin :: int
  arenaEnd :: int
  growingDisabled :: int
  brk :: int
  p_suffix :: "int \<Rightarrow> int"
  p_allocated :: "int \<Rightarrow> int"
  s_prefix :: "int \<Rightarrow> int"
  bytes :: "int \<Rightarrow> 8 word"

text \<open>
  A run of the C code can leave the model in three ways: it dereferences the null
  pointer (\<open>NullDeref\<close>), it stamps a block whose suffix record would lie inside its own
  prefix record or beyond the address space (\<open>InvalidBlockSize\<close>; the file's opening
  comment requires a block to be at least \<open>prefixSize + suffixSize\<close> bytes, and the
  field-wise heap cannot express the overlap), or it reaches the end of \<^verbatim>\<open>coalesce\<close>
  without a return value (\<open>MissingReturn\<close>). A failed \<^verbatim>\<open>assert\<close> of \<^verbatim>\<open>arenaCheck\<close> is
  \<open>AssertFailed\<close>.
\<close>

datatype error = NullDeref | InvalidBlockSize | MissingReturn | AssertFailed

definition bindE :: "error + 'a \<Rightarrow> ('a \<Rightarrow> error + 'b) \<Rightarrow> error + 'b" where
  "bindE m f = (case m of Inl e \<Rightarrow> Inl e | Inr x \<Rightarrow> f x)"

text \<open>A loop that does not return is \<open>None\<close>; \<open>bindO\<close> sequences such computations.\<close>

definition bindO :: "(error + 'a) option \<Rightarrow> ('a \<Rightarrow> (error + 'b) option) \<Rightarrow> (error + 'b) option" where
  "bindO m f = (case m of None \<Rightarrow> None | Some (Inl e) \<Rightarrow> Some (Inl e) | Some (Inr x) \<Rightarrow> f x)"

subsection \<open>Block layout primitives\<close>

definition makeFreeBlock :: "state \<Rightarrow> int \<Rightarrow> int \<Rightarrow> error + (int \<times> state)" where
  "makeFreeBlock st addr sz =
     (if addr = 0 then Inl NullDeref
      else if sz < prefixSize + suffixSize \<or> 2 ^ 64 < addr + sz then Inl InvalidBlockSize
      else
        let p = addr;
            limitAddr = u64 (addr + sz);
            s = u64 (limitAddr - align8 sizeof_BlockSuffix_t)
        in Inr (p, st\<lparr>p_suffix := (p_suffix st)(p := s),
                      s_prefix := (s_prefix st)(s := p),
                      p_allocated := (p_allocated st)(p := 0)\<rparr>))"

text \<open>
  Modelled from the spec: \<^verbatim>\<open>sbrk\<close> is the memory-growth provider, outside the
  repository: it returns the old break and moves the break up by the increment, or
  returns \<^verbatim>\<open>(void *) -1\<close> when the address space is exhausted.
\<close>

definition sbrk :: "int \<Rightarrow> state \<Rightarrow> int \<times> state" where
  "sbrk incr st =
     (if 2 ^ 64 \<le> brk st + incr then (u64 (- 1), st)
      else (brk st, st\<lparr>brk := brk st + incr\<rparr>))"

definition initializeArena :: "state \<Rightarrow> error + state" where
  "initializeArena st =
     (if arenaBegin st \<noteq> 0 then Inr st
      else
        let (a, st1) = sbrk DEFAULT_BRKSIZE st
        in bindE (makeFreeBlock st1 a DEFAULT_BRKSIZE)
             (\<lambda>(p, st2). Inr (st2\<lparr>arenaBegin := p, arenaEnd := u64 (p + DEFAULT_BRKSIZE)\<rparr>)))"

definition computeUsableSpace :: "state \<Rightarrow> int \<Rightarrow> error + int" where
  "computeUsableSpace st p =
     (if p = 0 then Inl NullDeref
      else let prefix_end = u64 (p + prefixSize) in Inr (u64 (p_suffix st p - prefix_end)))"

definition computeNextPrefixAddr :: "state \<Rightarrow> int \<Rightarrow> error + int" where
  "computeNextPrefixAddr st p =
     (if p = 0 then Inl NullDeref else Inr (u64 (p_suffix st p + suffixSize)))"

definition computePrevSuffixAddr :: "int \<Rightarrow> int" where
  "computePrevSuffixAddr p = u64 (p - suffixSize)"

definition getNextPrefix :: "state \<Rightarrow> int \<Rightarrow> error + int" where
  "getNextPrefix st p =
     bindE (computeNextPrefixAddr st p)
       (\<lambda>np. if np < arenaEnd st then Inr np else Inr 0)"

definition getPrevPrefix :: "state \<Rightarrow> int \<Rightarrow> int" where
  "getPrevPrefix st p =
     (let ps = computePrevSuffixAddr p
      in if ps > arenaBegin st then s_prefix st ps else 0)"

definition coalescePrev :: "state \<Rightarrow> int \<Rightarrow> error + (int \<times> state)" where
  "coalescePrev st p =
     (let prev = getPrevPrefix st p
      in if p \<noteq> 0 \<and> prev \<noteq> 0 \<and> p_allocated st p = 0 \<and> p_allocated st prev = 0
         then bindE (computeNextPrefixAddr st p)
                (\<lambda>np. bindE (makeFreeBlock st prev (u64 (np - prev)))
                  (\<lambda>(q, st1). Inr (prev, st1)))
         else Inr (p, st))"

definition coalesce :: "state \<Rightarrow> int \<Rightarrow> error + (int \<times> state)" where
  "coalesce st p =
     (if p \<noteq> 0
      then bindE (coalescePrev st p)
             (\<lambda>(p1, st1). bindE (getNextPrefix st1 p1)
               (\<lambda>next. if next \<noteq> 0 then coalescePrev st1 next else Inr (p1, st1)))
      else Inl MissingReturn)"

subsection \<open>Arena growth\<close>

definition growArena :: "int \<Rightarrow> state \<Rightarrow> error + (int \<times> state)" where
  "growArena s st =
     (if growingDisabled st \<noteq> 0 then Inr (0, st)
      else
        let s1 = u64 (s + (prefixSize + suffixSize));
            s2 = (if s1 < DEFAULT_BRKSIZE then DEFAULT_BRKSIZE else s1);
            (n, st1) = sbrk s2 st
        in if n = 0 \<or> n \<noteq> arenaEnd st1 then Inr (0, st1)
           else
             let st2 = st1\<lparr>arenaEnd := u64 (n + s2)\<rparr>
             in bindE (makeFreeBlock st2 n s2) (\<lambda>(p, st3). coalescePrev st3 p))"

subsection \<open>Free-block search\<close>

partial_function (option) findFirstFit_loop :: "state \<Rightarrow> int \<Rightarrow> int \<Rightarrow> (error + (int \<times> state)) option" where
  "findFirstFit_loop st s p =
     (if p = 0 then Some (growArena s st)
      else (case computeUsableSpace st p of
              Inl e \<Rightarrow> Some (Inl e)
            | Inr space \<Rightarrow>
                (if p_allocated st p = 0 \<and> space \<ge> s then Some (Inr (p, st))
                 else (case getNextPrefix st p of
                         Inl e \<Rightarrow> Some (Inl e)
                       | Inr np \<Rightarrow> findFirstFit_loop st s np))))"

declare findFirstFit_loop.simps [code]

definition findFirstFit :: "int \<Rightarrow> state \<Rightarrow> (error + (int \<times> state)) option" where
  "findFirstFit s st = findFirstFit_loop st s (arenaBegin st)"

partial_function (option) findBestFit_loop ::
  "state \<Rightarrow> int \<Rightarrow> int \<Rightarrow> int \<Rightarrow> int \<Rightarrow> (error + (int \<times> state)) option" where
  "findBestFit_loop st s p bestFit minUsableSpace =
     (if p = 0 then (if bestFit \<noteq> 0 then Some (Inr (bestFit, st)) else Some (growArena s st))
      else if p_allocated st p = 0
      then (case computeUsableSpace st p of
              Inl e \<Rightarrow> Some (Inl e)
            | Inr u \<Rightarrow>
                (let space = s32 u
                 in if u64 space = s then Some (Inr (p, st))
                    else (case getNextPrefix st p of
                            Inl e \<Rightarrow> Some (Inl e)
                          | Inr np \<Rightarrow>
                              (if space < minUsableSpace \<and> u64 space > s
                               then findBestFit_loop st s np p space
                               else findBestFit_loop st s np bestFit minUsableSpace))))
      else (case getNextPrefix st p of
              Inl e \<Rightarrow> Some (Inl e)
            | Inr np \<Rightarrow> findBestFit_loop st s np bestFit minUsableSpace))"

declare findBestFit_loop.simps [code]

definition findBestFit :: "int \<Rightarrow> state \<Rightarrow> (error + (int \<times> state)) option" where
  "findBestFit s st = findBestFit_loop st s (arenaBegin st) 0 INT_MAX"


subsection \<open>Blocks and regions\<close>

definition regionToPrefix :: "int \<Rightarrow> int" where
  "regionToPrefix r = (if r \<noteq> 0 then u64 (r - prefixSize) else 0)"

definition prefixToRegion :: "int \<Rightarrow> int" where
  "prefixToRegion p = (if p \<noteq> 0 then u64 (p + prefixSize) else 0)"

text \<open>
  The statements that every split of the source repeats: take the end of the block,
  stamp the sliver from \<open>freeSliverStart\<close> to that end, then re-stamp the block itself
  so that it stops at \<open>freeSliverStart\<close>.
\<close>

definition splitBlock :: "state \<Rightarrow> int \<Rightarrow> int \<Rightarrow> error + state" where
  "splitBlock st p freeSliverStart =
     bindE (computeNextPrefixAddr st p)
       (\<lambda>freeSliverEnd. bindE (makeFreeBlock st freeSliverStart (u64 (freeSliverEnd - freeSliverStart)))
         (\<lambda>(q, st1). bindE (makeFreeBlock st1 p (u64 (freeSliverStart - p)))
           (\<lambda>(q', st2). Inr st2)))"

definition setAllocated :: "state \<Rightarrow> int \<Rightarrow> int \<Rightarrow> error + state" where
  "setAllocated st p v =
     (if p = 0 then Inl NullDeref else Inr (st\<lparr>p_allocated := (p_allocated st)(p := v)\<rparr>))"

subsection \<open>Allocation and deallocation\<close>

text \<open>The body of \<^verbatim>\<open>if (p) { ... }\<close>, the same text in both allocation functions.\<close>

definition allocBlock :: "int \<Rightarrow> int \<Rightarrow> state \<Rightarrow> error + (int \<times> state)" where
  "allocBlock s p st =
     (let asize = align8 s
      in bindE (computeUsableSpace st p)
           (\<lambda>availSize.
              bindE (if availSize \<ge> u64 (asize + prefixSize + suffixSize + 8)
                     then splitBlock st p (u64 (p + prefixSize + suffixSize + asize))
                     else Inr st)
                (\<lambda>st1. bindE (setAllocated st1 p 1)
                  (\<lambda>st2. Inr (prefixToRegion p, st2)))))"

definition firstFitAllocRegion :: "int \<Rightarrow> state \<Rightarrow> (error + (int \<times> state)) option" where
  "firstFitAllocRegion s st =
     bindO (Some (if arenaBegin st = 0 then initializeArena st else Inr st))
       (\<lambda>st1. bindO (findFirstFit s st1)
         (\<lambda>(p, st2). if p \<noteq> 0 then Some (allocBlock s p st2) else Some (Inr (0, st2))))"

definition bestFitAllocRegion :: "int \<Rightarrow> state \<Rightarrow> (error + (int \<times> state)) option" where
  "bestFitAllocRegion s st =
     bindO (Some (if arenaBegin st = 0 then initializeArena st else Inr st))
       (\<lambda>st1. bindO (findBestFit s st1)
         (\<lambda>(p, st2). if p \<noteq> 0 then Some (allocBlock s p st2) else Some (Inr (0, st2))))"

definition freeRegion :: "int \<Rightarrow> state \<Rightarrow> error + state" where
  "freeRegion r st =
     (if r \<noteq> 0
      then let p = regionToPrefix r
           in bindE (setAllocated st p 0)
                (\<lambda>st1. bindE (coalesce st1 p) (\<lambda>(q, st2). Inr st2))
      else Inr st)"

subsection \<open>Resizing\<close>

text \<open>\<^verbatim>\<open>oldSize\<close>, as all three resize functions compute it.\<close>

definition resizeOldSize :: "int \<Rightarrow> state \<Rightarrow> error + int" where
  "resizeOldSize r st =
     (if r \<noteq> 0
      then bindE (computeUsableSpace st (regionToPrefix r)) (\<lambda>u. Inr (s32 u))
      else Inr 0)"

text \<open>
  The tail of all three: \<^verbatim>\<open>for (i = 0; i < oldSize; i++) n[i] = o[i]; freeRegion(o); return n;\<close>
\<close>

definition copyBytes :: "int \<Rightarrow> int \<Rightarrow> int \<Rightarrow> state \<Rightarrow> error + state" where
  "copyBytes n old oldSize st =
     (if oldSize \<le> 0 then Inr st
      else if n = 0 \<or> old = 0 then Inl NullDeref
      else Inr (st\<lparr>bytes := fold (\<lambda>i m. m(u64 (n + int i) := m (u64 (old + int i))))
                                [0..<nat oldSize] (bytes st)\<rparr>))"

definition copyAndFree :: "int \<Rightarrow> int \<Rightarrow> int \<Rightarrow> state \<Rightarrow> error + (int \<times> state)" where
  "copyAndFree n r oldSize st =
     bindE (copyBytes n r oldSize st)
       (\<lambda>st1. bindE (freeRegion r st1) (\<lambda>st2. Inr (n, st2)))"

definition oldResizeRegion :: "int \<Rightarrow> int \<Rightarrow> state \<Rightarrow> (error + (int \<times> state)) option" where
  "oldResizeRegion r newSize st =
     bindO (Some (resizeOldSize r st))
       (\<lambda>oldSize.
          if u64 oldSize \<ge> newSize then Some (Inr (r, st))
          else bindO (firstFitAllocRegion newSize st)
                 (\<lambda>(n, st1). Some (copyAndFree n r oldSize st1)))"

text \<open>Lines 350 to 367 (and 403 to 420): grow into the successor.\<close>

definition mergeNext :: "state \<Rightarrow> int \<Rightarrow> int \<Rightarrow> int \<Rightarrow> int \<Rightarrow> int \<Rightarrow> error + (int \<times> state)" where
  "mergeNext st currentPrefix nextBlock usableSpaceNext usableSpaceCurrent newSize =
     (let aSize = align8_int (s32 (u64 (newSize - usableSpaceCurrent)));
          availSize = usableSpaceNext
      in bindE (if availSize \<ge> u64 (s32 (aSize + 8))
                then splitBlock st nextBlock (u64 (nextBlock + aSize))
                else Inr st)
           (\<lambda>st1. bindE (setAllocated st1 currentPrefix 0)
             (\<lambda>st2. bindE (coalescePrev st2 nextBlock)
               (\<lambda>(cp, st3). bindE (setAllocated st3 cp 1)
                 (\<lambda>st4. Inr (prefixToRegion cp, st4))))))"

definition resizeRegion :: "int \<Rightarrow> int \<Rightarrow> state \<Rightarrow> (error + (int \<times> state)) option" where
  "resizeRegion r newSize st =
     bindO (Some (resizeOldSize r st))
       (\<lambda>oldSize.
          if u64 oldSize \<ge> newSize then Some (Inr (r, st))
          else
            let currentPrefix = regionToPrefix r
            in bindO (Some (getNextPrefix st currentPrefix))
                 (\<lambda>nextBlock. bindO (Some (computeUsableSpace st nextBlock))
                   (\<lambda>usableSpaceNext. bindO (Some (computeUsableSpace st currentPrefix))
                     (\<lambda>usableSpaceCurrent.
                        if nextBlock \<noteq> 0 \<and> p_allocated st nextBlock = 0
                           \<and> u64 (s32 (u64 (usableSpaceNext + usableSpaceCurrent))) \<ge> newSize
                        then Some (mergeNext st currentPrefix nextBlock
                                     usableSpaceNext usableSpaceCurrent newSize)
                        else bindO (bestFitAllocRegion newSize st)
                               (\<lambda>(n, st1). Some (copyAndFree n r oldSize st1))))))"

text \<open>Lines 431 to 449: grow into the predecessor.\<close>

definition mergePast :: "state \<Rightarrow> int \<Rightarrow> int \<Rightarrow> int \<Rightarrow> int \<Rightarrow> int \<Rightarrow> error + (int \<times> state)" where
  "mergePast st currentPrefix pastBlock usableSpacePast usableSpaceCurrent newSize =
     (let missingSize = s32 (align8 (u64 (newSize - usableSpaceCurrent)));
          aSize = align8 (u64 (usableSpacePast - missingSize));
          availSize = usableSpacePast
      in bindE (if availSize \<ge> u64 (aSize + 8)
                then splitBlock st pastBlock (u64 (pastBlock + prefixSize + suffixSize + aSize))
                else Inr st)
           (\<lambda>st1. bindE (setAllocated st1 currentPrefix 0)
             (\<lambda>st2. bindE (coalescePrev st2 currentPrefix)
               (\<lambda>(cp, st3). bindE (setAllocated st3 cp 1)
                 (\<lambda>st4. Inr (prefixToRegion cp, st4))))))"

text \<open>Lines 457 to 477: merge all three, the sliver left at the head of the predecessor.\<close>

definition mergeBothTrimPast ::
  "state \<Rightarrow> int \<Rightarrow> int \<Rightarrow> int \<Rightarrow> int \<Rightarrow> int \<Rightarrow> int \<Rightarrow> error + (int \<times> state)" where
  "mergeBothTrimPast st currentPrefix pastBlock usableSpacePast usableSpaceNext usableSpaceCurrent newSize =
     (let missingSize = s32 (align8 (u64 (newSize - usableSpaceCurrent - usableSpaceNext
                                           - prefixSize - suffixSize)));
          aSize = align8_int (s32 (u64 (usableSpacePast - missingSize)));
          availSize = usableSpacePast
      in bindE (if availSize \<ge> u64 (s32 (aSize + 8))
                then splitBlock st pastBlock (u64 (pastBlock + aSize + prefixSize + suffixSize))
                else Inr st)
           (\<lambda>st1. bindE (setAllocated st1 currentPrefix 0)
             (\<lambda>st2. bindE (coalesce st2 currentPrefix)
               (\<lambda>(cp, st3). bindE (setAllocated st3 cp 1)
                 (\<lambda>st4. Inr (prefixToRegion cp, st4))))))"

text \<open>Lines 480 to 498: merge all three, the sliver left at the tail of the successor.\<close>

definition mergeBothTrimNext ::
  "state \<Rightarrow> int \<Rightarrow> int \<Rightarrow> int \<Rightarrow> int \<Rightarrow> int \<Rightarrow> int \<Rightarrow> error + (int \<times> state)" where
  "mergeBothTrimNext st currentPrefix nextBlock usableSpacePast usableSpaceNext usableSpaceCurrent newSize =
     (let missingSize = s32 (align8 (u64 (usableSpaceCurrent + usableSpacePast)));
          aSize = align8_int (s32 (u64 (newSize - missingSize)));
          availSize = usableSpaceNext
      in bindE (if availSize \<ge> u64 (s32 (aSize + 8))
                then splitBlock st nextBlock (u64 (nextBlock + aSize - (prefixSize + suffixSize)))
                else Inr st)
           (\<lambda>st1. bindE (setAllocated st1 currentPrefix 0)
             (\<lambda>st2. bindE (coalesce st2 currentPrefix)
               (\<lambda>(cp, st3). bindE (setAllocated st3 cp 1)
                 (\<lambda>st4. Inr (prefixToRegion cp, st4))))))"

definition resizeRegionExtra :: "int \<Rightarrow> int \<Rightarrow> state \<Rightarrow> (error + (int \<times> state)) option" where
  "resizeRegionExtra r newSize st =
     bindO (Some (resizeOldSize r st))
       (\<lambda>oldSize.
          if u64 oldSize \<ge> newSize then Some (Inr (r, st))
          else
            let currentPrefix = regionToPrefix r
            in bindO (Some (getNextPrefix st currentPrefix))
                 (\<lambda>nextBlock. bindO (Some (computeUsableSpace st nextBlock))
                   (\<lambda>usableSpaceNext. bindO (Some (computeUsableSpace st currentPrefix))
                     (\<lambda>usableSpaceCurrent.
                        if nextBlock \<noteq> 0 \<and> p_allocated st nextBlock = 0
                           \<and> u64 (s32 (u64 (usableSpaceNext + usableSpaceCurrent))) \<ge> newSize
                        then Some (mergeNext st currentPrefix nextBlock
                                     usableSpaceNext usableSpaceCurrent newSize)
                        else
                          let pastBlock = getPrevPrefix st currentPrefix
                          in bindO (Some (computeUsableSpace st pastBlock))
                               (\<lambda>usableSpacePast.
                                  if pastBlock \<noteq> 0 \<and> p_allocated st pastBlock = 0
                                     \<and> u64 (s32 (u64 (usableSpacePast + usableSpaceCurrent))) \<ge> newSize
                                  then Some (mergePast st currentPrefix pastBlock
                                               usableSpacePast usableSpaceCurrent newSize)
                                  else if pastBlock \<noteq> 0 \<and> p_allocated st pastBlock = 0
                                          \<and> nextBlock \<noteq> 0 \<and> p_allocated st nextBlock = 0
                                          \<and> u64 (s32 (u64 (usableSpacePast + usableSpaceNext
                                                            + usableSpaceCurrent))) \<ge> newSize
                                  then (if usableSpacePast > usableSpaceNext
                                        then Some (mergeBothTrimPast st currentPrefix pastBlock
                                               usableSpacePast usableSpaceNext usableSpaceCurrent newSize)
                                        else Some (mergeBothTrimNext st currentPrefix nextBlock
                                               usableSpacePast usableSpaceNext usableSpaceCurrent newSize))
                                  else bindO (bestFitAllocRegion newSize st)
                                         (\<lambda>(n, st1). Some (copyAndFree n r oldSize st1)))))))"

section \<open>Arena invariant and specification functions\<close>

text \<open>The usable space of a block, as the difference \<^verbatim>\<open>computeUsableSpace\<close> takes, unwrapped.\<close>

definition usableSpace :: "state \<Rightarrow> int \<Rightarrow> int" where
  "usableSpace st p = p_suffix st p - (p + prefixSize)"

text \<open>
  \<open>chain st a bs e\<close>: the blocks with prefixes at the addresses \<open>bs\<close> tile the range from
  \<open>a\<close> to \<open>e\<close> without gaps, each with its suffix after its prefix and the suffix
  pointing back to the prefix.
\<close>

fun chain :: "state \<Rightarrow> int \<Rightarrow> int list \<Rightarrow> int \<Rightarrow> bool" where
  "chain st a [] e = (a = e)"
| "chain st a (b # bs) e =
     (b = a \<and> a + prefixSize \<le> p_suffix st a \<and> p_suffix st a + suffixSize \<le> e
      \<and> s_prefix st (p_suffix st a) = a \<and> chain st (p_suffix st a + suffixSize) bs e)"

text \<open>
  A valid arena: the blocks \<open>bs\<close> tile it from \<open>arenaBegin\<close> to \<open>arenaEnd\<close>, it lies inside
  the address space above the first 8 bytes, and it is smaller than \<open>2 ^ 31\<close> bytes (the
  arena of the source is \<open>DEFAULT_BRKSIZE\<close> bytes, and the resize functions and the
  best-fit search keep sizes in an \<^verbatim>\<open>int\<close>).
\<close>

definition validArena :: "state \<Rightarrow> int list \<Rightarrow> bool" where
  "validArena st bs =
     (suffixSize \<le> arenaBegin st \<and> arenaEnd st < 2 ^ 64 \<and> arenaEnd st - arenaBegin st < 2 ^ 31
      \<and> bs \<noteq> [] \<and> chain st (arenaBegin st) bs (arenaEnd st))"

definition fits :: "state \<Rightarrow> int \<Rightarrow> int \<Rightarrow> bool" where
  "fits st s q = (p_allocated st q = 0 \<and> s \<le> usableSpace st q)"

text \<open>
  Best fit as the spec words it: among the candidates, the one with the smallest usable
  space, the first of them in scan order; growth when there is no candidate.
\<close>

definition pickBest :: "state \<Rightarrow> int \<Rightarrow> int list \<Rightarrow> error + (int \<times> state)" where
  "pickBest st s C = (if C = [] then growArena s st else Inr (arg_min_list (usableSpace st) C, st))"

definition bestFitSpec :: "state \<Rightarrow> int \<Rightarrow> int list \<Rightarrow> error + (int \<times> state)" where
  "bestFitSpec st s bs = pickBest st s (filter (fits st s) bs)"

text \<open>The state after a block \<open>p\<close> is split at \<open>S\<close>: two free blocks, \<open>p\<close> and \<open>S\<close>.\<close>

definition splitState :: "state \<Rightarrow> int \<Rightarrow> int \<Rightarrow> state" where
  "splitState st p S =
     st\<lparr>p_suffix := (p_suffix st)(S := p_suffix st p, p := S - 8),
        s_prefix := (s_prefix st)(p_suffix st p := S, S - 8 := p),
        p_allocated := (p_allocated st)(S := 0, p := 0)\<rparr>"

text \<open>The state after the adjacent blocks \<open>a\<close> and \<open>b\<close> are merged into \<open>a\<close>, free.\<close>

definition mergeState :: "state \<Rightarrow> int \<Rightarrow> int \<Rightarrow> state" where
  "mergeState st a b =
     st\<lparr>p_suffix := (p_suffix st)(a := p_suffix st b),
        s_prefix := (s_prefix st)(p_suffix st b := a),
        p_allocated := (p_allocated st)(a := 0)\<rparr>"



text \<open>Observers of a result, for statements about concrete runs.\<close>

definition regionOf :: "(error + (int \<times> state)) option \<Rightarrow> int option" where
  "regionOf x = (case x of Some (Inr (r, st)) \<Rightarrow> Some r | _ \<Rightarrow> None)"

definition allocatedAfter :: "(error + (int \<times> state)) option \<Rightarrow> int \<Rightarrow> int option" where
  "allocatedAfter x p = (case x of Some (Inr (r, st)) \<Rightarrow> Some (p_allocated st p) | _ \<Rightarrow> None)"

definition usableAfter :: "(error + (int \<times> state)) option \<Rightarrow> int \<Rightarrow> int option" where
  "usableAfter x p = (case x of Some (Inr (r, st)) \<Rightarrow> Some (usableSpace st p) | _ \<Rightarrow> None)"

subsection \<open>Concrete arenas\<close>

text \<open>
  \<open>stamp a blocks st\<close> lays blocks out from address \<open>a\<close>, one per pair of usable space and
  allocation flag, and ends the arena after the last one.
\<close>

fun stamp :: "int \<Rightarrow> (int \<times> int) list \<Rightarrow> state \<Rightarrow> state" where
  "stamp a [] st = st\<lparr>arenaEnd := a, brk := a\<rparr>"
| "stamp a ((u, al) # blocks) st =
     stamp (a + 24 + u) blocks
       (st\<lparr>p_suffix := (p_suffix st)(a := a + 16 + u),
           s_prefix := (s_prefix st)(a + 16 + u := a),
           p_allocated := (p_allocated st)(a := al)\<rparr>)"

definition mkArena :: "int \<Rightarrow> (int \<times> int) list \<Rightarrow> state" where
  "mkArena base blocks =
     stamp base blocks
       \<lparr>arenaBegin = base, arenaEnd = base, growingDisabled = 1, brk = base,
        p_suffix = (\<lambda>a. 0), p_allocated = (\<lambda>a. 0), s_prefix = (\<lambda>a. 0), bytes = (\<lambda>a. 0)\<rparr>"

text \<open>The state before the first call, with the program break at 4096.\<close>

definition st0 :: state where
  "st0 = \<lparr>arenaBegin = 0, arenaEnd = 0, growingDisabled = 1, brk = 4096,
          p_suffix = (\<lambda>a. 0), p_allocated = (\<lambda>a. 0), s_prefix = (\<lambda>a. 0), bytes = (\<lambda>a. 0)\<rparr>"

text \<open>
  The arena of \<^verbatim>\<open>test1.c\<close> after \<open>p1\<close> and \<open>p3\<close> are freed: regions of 56500, 254, 25400 and
  254 bytes allocated in turn in a fresh arena at 4096, then the first and the third
  freed. The blocks are at 4096, 60624, 60904, 86328 and 86608.
\<close>

definition arenaT :: state where
  "arenaT = mkArena 4096 [(56504, 0), (256, 1), (25400, 0), (256, 1), (966040, 0)]"

definition blocksT :: "int list" where
  "blocksT = [4096, 60624, 60904, 86328, 86608]"

text \<open>
  A full arena of two allocated blocks, as left by requests for 256 and 1048272 bytes
  in a fresh arena.
\<close>

definition arenaL :: state where
  "arenaL = mkArena 4096 [(256, 1), (1048272, 1)]"

definition blocksL :: "int list" where
  "blocksL = [4096, 4376]"

text \<open>Four free blocks of 56504, 254, 25400 and 254 usable bytes.\<close>

definition arenaB :: state where
  "arenaB = mkArena 4096 [(56504, 0), (254, 0), (25400, 0), (254, 0)]"

definition blocksB :: "int list" where
  "blocksB = [4096, 60624, 60902, 86326]"

text \<open>The state a call returned, and the usable space of a block after \<^verbatim>\<open>freeRegion\<close>.\<close>

definition resultState :: "(error + (int \<times> state)) option \<Rightarrow> state" where
  "resultState x = (case x of Some (Inr (r, st)) \<Rightarrow> st | _ \<Rightarrow> st0)"


text \<open>
  A block of 256 bytes between two free blocks of 1000 bytes each, as left by requests for
  1000, 256, 1000 and 8 bytes in a fresh arena after the first and the third are freed.
\<close>

definition arenaTie :: state where
  "arenaTie = mkArena 4096 [(1000, 0), (256, 1), (1000, 0), (8, 1), (1046192, 0)]"

text \<open>The state after \<^verbatim>\<open>p->allocated = v\<close>.\<close>

definition setFlag :: "state \<Rightarrow> int \<Rightarrow> int \<Rightarrow> state" where
  "setFlag st p v = st\<lparr>p_allocated := (p_allocated st)(p := v)\<rparr>"

text \<open>
  The state before the first call of an allocation function: no arena yet, and room for
  \<open>DEFAULT_BRKSIZE\<close> bytes above the program break.
\<close>

definition fresh :: "state \<Rightarrow> bool" where
  "fresh st = (arenaBegin st = 0 \<and> 8 \<le> brk st \<and> brk st + DEFAULT_BRKSIZE < 2 ^ 64)"

text \<open>
  The last statements of both three-way branches of \<^verbatim>\<open>resizeRegionExtra\<close>: flag the block
  free, \<^verbatim>\<open>coalesce\<close> it, flag the block that comes back allocated, return its region.
\<close>

definition mergeTail :: "int \<Rightarrow> state \<Rightarrow> error + (int \<times> state)" where
  "mergeTail c st1 =
     bindE (setAllocated st1 c 0)
       (\<lambda>st2. bindE (coalesce st2 c)
         (\<lambda>(cp, st3). bindE (setAllocated st3 cp 1)
           (\<lambda>st4. Inr (prefixToRegion cp, st4))))"


text \<open>The error a call ended in, if it did.\<close>

definition errorOf :: "(error + 'a) option \<Rightarrow> error option" where
  "errorOf x = (case x of Some (Inl e) \<Rightarrow> Some e | _ \<Rightarrow> None)"

section \<open>Basic facts\<close>

lemma and_not_7: "(x::int) AND NOT 7 = x - x mod 8"
proof -
  have "x AND NOT (mask 3) = push_bit 3 (drop_bit 3 x)"
    by (rule bit_eqI) (auto simp: bit_simps)
  moreover have "push_bit 3 (drop_bit 3 x) + take_bit 3 x = x"
    by (rule bits_ident)
  moreover have "(mask 3 :: int) = 7"
    by (simp add: mask_eq_exp_minus_1)
  ultimately show ?thesis
    by (simp add: take_bit_eq_mod)
qed

lemma and_m8: "(x::int) AND - 8 = x - x mod 8"
  using and_not_7 [of x] by simp

lemma u64_id: "0 \<le> x \<Longrightarrow> x < 2 ^ 64 \<Longrightarrow> u64 x = x"
  by (simp add: u64_def)

lemma s32_id: "- (2 ^ 31) \<le> x \<Longrightarrow> x < 2 ^ 31 \<Longrightarrow> s32 x = x"
  by (simp add: s32_def)

lemma align8_eq: "0 \<le> x \<Longrightarrow> x + 7 < 2 ^ 64 \<Longrightarrow> align8 x = x + 7 - (x + 7) mod 8"
  by (simp add: align8_def and_m8 u64_id)

lemma align8_int_eq:
  "- (2 ^ 31) \<le> x + 7 \<Longrightarrow> x + 7 < 2 ^ 31 \<Longrightarrow> align8_int x = x + 7 - (x + 7) mod 8"
  by (simp add: align8_int_def and_m8 s32_id)

lemma align8_bounds:
  assumes "0 \<le> x" "x + 7 < 2 ^ 64"
  shows "x \<le> align8 x" "align8 x < x + 8" "align8 x mod 8 = 0"
proof -
  have e: "align8 x = x + 7 - (x + 7) mod 8" using assms by (rule align8_eq)
  show "x \<le> align8 x" "align8 x < x + 8" unfolding e by presburger+
  show "align8 x mod 8 = 0" unfolding e by presburger
qed

lemma prefixSize_eq [simp]: "prefixSize = 16"
  by (simp add: prefixSize_def sizeof_BlockPrefix_t_def align8_eq)

lemma suffixSize_eq [simp]: "suffixSize = 8"
  by (simp add: suffixSize_def sizeof_BlockSuffix_t_def align8_eq)

lemma align8_suffix [simp]: "align8 sizeof_BlockSuffix_t = 8"
  by (simp add: sizeof_BlockSuffix_t_def align8_eq)

lemma bindE_simps [simp]: "bindE (Inl e) f = Inl e" "bindE (Inr x) f = f x"
  by (simp_all add: bindE_def)

lemma bindO_simps [simp]:
  "bindO None f = None" "bindO (Some (Inl e)) f = Some (Inl e)" "bindO (Some (Inr x)) f = f x"
  by (simp_all add: bindO_def)

lemma bindO_return: "bindO m (\<lambda>(n, st1). Some (Inr (n, st1))) = m"
  by (cases m) (auto simp: bindO_def split: sum.splits)

lemmas model_defs = makeFreeBlock_def sbrk_def initializeArena_def computeUsableSpace_def
  computeNextPrefixAddr_def computePrevSuffixAddr_def getNextPrefix_def getPrevPrefix_def
  coalescePrev_def coalesce_def growArena_def findFirstFit_def findBestFit_def regionToPrefix_def
  prefixToRegion_def splitBlock_def setAllocated_def allocBlock_def firstFitAllocRegion_def
  bestFitAllocRegion_def freeRegion_def resizeOldSize_def copyBytes_def copyAndFree_def
  oldResizeRegion_def mergeNext_def resizeRegion_def mergePast_def mergeBothTrimPast_def
  mergeBothTrimNext_def resizeRegionExtra_def DEFAULT_BRKSIZE_def INT_MAX_def

lemmas eval_defs = model_defs findFirstFit_loop.simps findBestFit_loop.simps u64_def s32_def
  align8_eq align8_int_def and_m8 Let_def usableSpace_def regionOf_def allocatedAfter_def
  usableAfter_def mkArena_def st0_def

subsection \<open>Chains of blocks\<close>

lemma chain_le: "chain st a bs e \<Longrightarrow> a \<le> e"
  by (induction bs arbitrary: a) auto

lemma chain_mem:
  "chain st a bs e \<Longrightarrow> b \<in> set bs \<Longrightarrow>
     a \<le> b \<and> b + 16 \<le> p_suffix st b \<and> p_suffix st b + 8 \<le> e \<and> s_prefix st (p_suffix st b) = b"
proof (induction bs arbitrary: a)
  case Nil
  then show ?case by simp
next
  case (Cons c bs)
  show ?case
  proof (cases "b = c")
    case True
    with Cons.prems show ?thesis by simp
  next
    case False
    with Cons.prems have "b \<in> set bs" and ch: "chain st (p_suffix st a + 8) bs e"
      and "a + 16 \<le> p_suffix st a" by simp_all
    with Cons.IH [OF ch] show ?thesis by force
  qed
qed

lemma chain_append:
  "chain st a (xs @ ys) e \<longleftrightarrow> (\<exists>m. chain st a xs m \<and> chain st m ys e)"
proof (induction xs arbitrary: a)
  case Nil
  then show ?case by simp
next
  case (Cons x xs)
  show ?case
  proof
    assume "chain st a ((x # xs) @ ys) e"
    then show "\<exists>m. chain st a (x # xs) m \<and> chain st m ys e"
      using Cons.IH chain_le by fastforce
  next
    assume "\<exists>m. chain st a (x # xs) m \<and> chain st m ys e"
    then obtain m where m: "chain st a (x # xs) m" "chain st m ys e" by blast
    then have "m \<le> e" by (simp add: chain_le)
    with m show "chain st a ((x # xs) @ ys) e"
      using Cons.IH by auto
  qed
qed

lemma chain_frame:
  "chain st a bs e \<Longrightarrow>
   (\<And>x. a \<le> x \<Longrightarrow> x < e \<Longrightarrow> p_suffix st' x = p_suffix st x \<and> s_prefix st' x = s_prefix st x) \<Longrightarrow>
   chain st' a bs e"
proof (induction bs arbitrary: a)
  case Nil
  then show ?case by simp
next
  case (Cons b bs)
  from Cons.prems(1) have b: "b = a" "a + 16 \<le> p_suffix st a" "p_suffix st a + 8 \<le> e"
    "s_prefix st (p_suffix st a) = a" and ch: "chain st (p_suffix st a + 8) bs e"
    by simp_all
  have pa: "p_suffix st' a = p_suffix st a" using Cons.prems(2) [of a] b by simp
  have sa: "s_prefix st' (p_suffix st a) = a" using Cons.prems(2) [of "p_suffix st a"] b by simp
  have "chain st' (p_suffix st a + 8) bs e"
    by (rule Cons.IH [OF ch]) (use Cons.prems(2) b in auto)
  with b pa sa show ?case by simp
qed

lemma chain_nonempty_lt: "chain st a bs e \<Longrightarrow> bs \<noteq> [] \<Longrightarrow> a + 24 \<le> e"
  by (cases bs) (auto dest: chain_le)

lemma chain_last: "chain st a bs e \<Longrightarrow> bs \<noteq> [] \<Longrightarrow> p_suffix st (last bs) + 8 = e"
  by (induction bs arbitrary: a) (auto split: if_splits)

lemma makeFreeBlock_ok:
  "0 < a \<Longrightarrow> 24 \<le> n \<Longrightarrow> a + n < 2 ^ 64 \<Longrightarrow>
   makeFreeBlock st a n =
     Inr (a, st\<lparr>p_suffix := (p_suffix st)(a := a + n - 8),
                s_prefix := (s_prefix st)(a + n - 8 := a),
                p_allocated := (p_allocated st)(a := 0)\<rparr>)"
  by (simp add: makeFreeBlock_def u64_id Let_def)

lemma computeUsableSpace_ok:
  "0 < p \<Longrightarrow> p + 16 \<le> p_suffix st p \<Longrightarrow> p_suffix st p < 2 ^ 64 \<Longrightarrow>
   computeUsableSpace st p = Inr (usableSpace st p)"
  by (simp add: computeUsableSpace_def usableSpace_def u64_id)

lemma computeNextPrefixAddr_ok:
  "0 < p \<Longrightarrow> 0 \<le> p_suffix st p \<Longrightarrow> p_suffix st p + 8 < 2 ^ 64 \<Longrightarrow>
   computeNextPrefixAddr st p = Inr (p_suffix st p + 8)"
  by (simp add: computeNextPrefixAddr_def u64_id)

lemma validArena_mem:
  assumes "validArena st bs" "b \<in> set bs"
  shows "8 \<le> b" "b + 16 \<le> p_suffix st b" "p_suffix st b + 8 \<le> arenaEnd st"
    "s_prefix st (p_suffix st b) = b" "arenaBegin st \<le> b" "p_suffix st b + 8 < 2 ^ 64"
    "0 \<le> usableSpace st b" "usableSpace st b < 2 ^ 31 - 24"
proof -
  from assms have ch: "chain st (arenaBegin st) bs (arenaEnd st)" and pos: "8 \<le> arenaBegin st"
    and lt: "arenaEnd st < 2 ^ 64" and sz: "arenaEnd st - arenaBegin st < 2 ^ 31"
    by (simp_all add: validArena_def)
  from chain_mem [OF ch assms(2)] pos lt sz
  show "8 \<le> b" "b + 16 \<le> p_suffix st b" "p_suffix st b + 8 \<le> arenaEnd st"
    "s_prefix st (p_suffix st b) = b" "arenaBegin st \<le> b" "p_suffix st b + 8 < 2 ^ 64"
    "0 \<le> usableSpace st b" "usableSpace st b < 2 ^ 31 - 24"
    by (simp_all add: usableSpace_def)
qed

lemma validArena_compute:
  assumes "validArena st bs" "b \<in> set bs"
  shows "computeUsableSpace st b = Inr (usableSpace st b)"
    "computeNextPrefixAddr st b = Inr (p_suffix st b + 8)"
  using validArena_mem [OF assms]
  by (auto intro!: computeUsableSpace_ok computeNextPrefixAddr_ok)

lemma validArena_region:
  assumes "validArena st bs" "b \<in> set bs"
  shows "prefixToRegion b = b + 16" "regionToPrefix (b + 16) = b"
  using validArena_mem [OF assms]
  by (auto simp: prefixToRegion_def regionToPrefix_def u64_id)

lemma validArena_allocated_upd:
  "validArena st bs \<Longrightarrow> validArena (st\<lparr>p_allocated := f\<rparr>) bs"
  unfolding validArena_def
  by (auto elim: chain_frame)

lemma validArena_arenaT: "validArena arenaT blocksT"
  by (simp add: validArena_def arenaT_def blocksT_def mkArena_def)

subsection \<open>The two searches\<close>

lemma findFirstFit_loop_null: "findFirstFit_loop st s 0 = Some (growArena s st)"
  by (subst findFirstFit_loop.simps) simp

lemma findFirstFit_loop_chain:
  "chain st p bs e \<Longrightarrow> bs \<noteq> [] \<Longrightarrow> 0 < p \<Longrightarrow> e = arenaEnd st \<Longrightarrow> e < 2 ^ 64 \<Longrightarrow>
   findFirstFit_loop st s p =
     Some (case find (fits st s) bs of Some q \<Rightarrow> Inr (q, st) | None \<Rightarrow> growArena s st)"
proof (induction bs arbitrary: p)
  case Nil
  then show ?case by simp
next
  case (Cons b bs)
  from Cons.prems have b: "b = p" "p + 16 \<le> p_suffix st p" "p_suffix st p + 8 \<le> e"
    and ch: "chain st (p_suffix st p + 8) bs e" by simp_all
  have pos: "p \<noteq> 0" using Cons.prems(3) by simp
  have us: "computeUsableSpace st p = Inr (usableSpace st p)"
    using b Cons.prems by (intro computeUsableSpace_ok) auto
  have nx: "computeNextPrefixAddr st p = Inr (p_suffix st p + 8)"
    using b Cons.prems by (intro computeNextPrefixAddr_ok) auto
  show ?case
  proof (cases "fits st s p")
    case True
    then show ?thesis
      using us b pos by (subst findFirstFit_loop.simps) (simp add: fits_def)
  next
    case False
    show ?thesis
    proof (cases "bs = []")
      case True
      with ch have "p_suffix st p + 8 = e" by simp
      then show ?thesis
        using False us nx b True pos Cons.prems(4)
        by (subst findFirstFit_loop.simps)
           (auto simp add: fits_def getNextPrefix_def findFirstFit_loop_null)
    next
      case ne: False
      from chain_nonempty_lt [OF ch ne] have lt: "p_suffix st p + 8 < e" by simp
      have "findFirstFit_loop st s (p_suffix st p + 8) =
        Some (case find (fits st s) bs of Some q \<Rightarrow> Inr (q, st) | None \<Rightarrow> growArena s st)"
        using Cons.IH [OF ch ne] b Cons.prems by simp
      then show ?thesis
        using False us nx b lt pos Cons.prems(4)
        by (subst findFirstFit_loop.simps) (auto simp add: fits_def getNextPrefix_def)
    qed
  qed
qed

lemma arg_min_list_decomp:
  fixes f :: "'a \<Rightarrow> int"
  shows "F \<noteq> [] \<Longrightarrow>
    \<exists>A B. F = A @ arg_min_list f F # B
      \<and> (\<forall>a\<in>set A. f (arg_min_list f F) < f a)
      \<and> (\<forall>b\<in>set B. f (arg_min_list f F) \<le> f b)"
proof (induction F)
  case Nil
  then show ?case by simp
next
  case (Cons x F)
  show ?case
  proof (cases "F = []")
    case True
    then have "x # F = [] @ arg_min_list f (x # F) # []" by simp
    then show ?thesis by force
  next
    case False
    let ?m = "arg_min_list f F"
    from Cons.IH [OF False] obtain A B where AB: "F = A @ ?m # B"
      "\<forall>a\<in>set A. f ?m < f a" "\<forall>b\<in>set B. f ?m \<le> f b" by blast
    from False obtain y zs where F: "F = y # zs" by (cases F) auto
    have am: "arg_min_list f (x # F) = (if f x \<le> f ?m then x else ?m)"
      unfolding F by (simp add: Let_def)
    show ?thesis
    proof (cases "f x \<le> f ?m")
      case True
      have "\<forall>b\<in>set F. f x \<le> f b"
      proof
        fix b assume "b \<in> set F"
        then have "b \<in> set A \<or> b = ?m \<or> b \<in> set B" by (subst (asm) AB(1)) auto
        with AB(2,3) True show "f x \<le> f b" by fastforce
      qed
      with True am have "x # F = [] @ arg_min_list f (x # F) # F
        \<and> (\<forall>a\<in>set []. f (arg_min_list f (x # F)) < f a)
        \<and> (\<forall>b\<in>set F. f (arg_min_list f (x # F)) \<le> f b)" by simp
      then show ?thesis by blast
    next
      case nle: False
      with am have e: "arg_min_list f (x # F) = ?m" by simp
      have "x # F = (x # A) @ ?m # B" using AB(1) by simp
      moreover have "\<forall>a\<in>set (x # A). f ?m < f a" using AB(2) nle by simp
      ultimately show ?thesis unfolding e using AB(3) by blast
    qed
  qed
qed

lemma filter_decomp:
  "filter P bs = A @ q # B \<Longrightarrow>
   \<exists>xs ys. bs = xs @ q # ys \<and> filter P xs = A \<and> filter P ys = B \<and> P q"
proof (induction A arbitrary: bs)
  case Nil
  then obtain us vs where "bs = us @ q # vs" "\<forall>u\<in>set us. \<not> P u" "P q" "B = filter P vs"
    by (auto simp: filter_eq_Cons_iff)
  then have "bs = us @ q # vs \<and> filter P us = [] \<and> filter P vs = B \<and> P q" by simp
  then show ?case by blast
next
  case (Cons a A)
  then obtain us vs where uv: "bs = us @ a # vs" "\<forall>u\<in>set us. \<not> P u" "P a"
    "A @ q # B = filter P vs"
    by (auto simp: filter_eq_Cons_iff)
  from Cons.IH [OF uv(4) [symmetric]] obtain xs ys where
    xy: "vs = xs @ q # ys" "filter P xs = A" "filter P ys = B" "P q" by blast
  have "bs = (us @ a # xs) @ q # ys \<and> filter P (us @ a # xs) = a # A \<and> filter P ys = B \<and> P q"
    using uv xy by simp
  then show ?case by blast
qed

lemma arg_min_list_head: "\<forall>y\<in>set xs. f x \<le> f y \<Longrightarrow> arg_min_list f (x # xs) = x"
  for f :: "'a \<Rightarrow> int"
proof (cases xs)
  case Nil
  then show ?thesis by simp
next
  case (Cons a ys)
  assume h: "\<forall>y\<in>set xs. f x \<le> f y"
  have "arg_min_list f (a # ys) \<in> set xs"
    unfolding Cons by (rule arg_min_list_in) simp
  with h have "f x \<le> f (arg_min_list f (a # ys))" by blast
  then show ?thesis unfolding Cons by (simp add: Let_def)
qed

lemma arg_min_list_Cons2:
  "arg_min_list f (a # b # xs) =
     (if f a \<le> f b then arg_min_list f (a # xs) else arg_min_list f (b # xs))"
  for f :: "'a \<Rightarrow> int"
proof (cases xs)
  case Nil
  then show ?thesis by simp
next
  case (Cons c ys)
  show ?thesis
    unfolding Cons by (auto simp: Let_def)
qed

lemma pickBest_head:
  "\<forall>y\<in>set xs. usableSpace st x \<le> usableSpace st y \<Longrightarrow> pickBest st s (x # xs) = Inr (x, st)"
  by (simp only: pickBest_def arg_min_list_head list.simps if_False)

lemma pickBest_second:
  "usableSpace st b < usableSpace st a \<Longrightarrow> pickBest st s (a # b # xs) = pickBest st s (b # xs)"
  by (simp only: pickBest_def arg_min_list_Cons2 list.simps if_False) simp

lemma pickBest_first:
  "usableSpace st a \<le> usableSpace st b \<Longrightarrow> pickBest st s (a # b # xs) = pickBest st s (a # xs)"
  by (simp only: pickBest_def arg_min_list_Cons2 list.simps if_False) simp

lemma findBestFit_loop_null:
  "findBestFit_loop st s 0 bf mu = (if bf \<noteq> 0 then Some (Inr (bf, st)) else Some (growArena s st))"
  by (subst findBestFit_loop.simps) simp

lemma findBestFit_loop_null':
  "findBestFit_loop st s 0 bf mu = Some (pickBest st s ((if bf = 0 then [] else [bf]) @ []))"
  by (simp add: findBestFit_loop_null pickBest_def)

lemma findBestFit_loop_free:
  "p \<noteq> 0 \<Longrightarrow> p_allocated st p = 0 \<Longrightarrow> computeUsableSpace st p = Inr u \<Longrightarrow> s32 u = u \<Longrightarrow> u64 u = u \<Longrightarrow>
   getNextPrefix st p = Inr np \<Longrightarrow>
   findBestFit_loop st s p bf mu =
     (if u = s then Some (Inr (p, st))
      else if u < mu \<and> u > s then findBestFit_loop st s np p u
      else findBestFit_loop st s np bf mu)"
  by (subst findBestFit_loop.simps) (simp add: Let_def)

lemma findBestFit_loop_allocated:
  "p \<noteq> 0 \<Longrightarrow> p_allocated st p \<noteq> 0 \<Longrightarrow> getNextPrefix st p = Inr np \<Longrightarrow>
   findBestFit_loop st s p bf mu = findBestFit_loop st s np bf mu"
  by (subst findBestFit_loop.simps) simp

lemma findBestFit_loop_chain:
  "chain st p bs e \<Longrightarrow> bs \<noteq> [] \<Longrightarrow> 0 < p \<Longrightarrow> e = arenaEnd st \<Longrightarrow> e < 2 ^ 64 \<Longrightarrow> e - p < 2 ^ 31 \<Longrightarrow>
   (bf = 0 \<and> mu = INT_MAX) \<or> (bf \<noteq> 0 \<and> mu = usableSpace st bf \<and> s < mu) \<Longrightarrow>
   findBestFit_loop st s p bf mu =
     Some (pickBest st s ((if bf = 0 then [] else [bf]) @ filter (fits st s) bs))"
proof (induction bs arbitrary: p bf mu)
  case Nil
  then show ?case by simp
next
  case (Cons b bs)
  from Cons.prems have b: "b = p" "p + 16 \<le> p_suffix st p" "p_suffix st p + 8 \<le> e"
    and ch: "chain st (p_suffix st p + 8) bs e" by simp_all
  have pos: "p \<noteq> 0" using Cons.prems(3) by simp
  have us: "computeUsableSpace st p = Inr (usableSpace st p)"
    using b Cons.prems by (intro computeUsableSpace_ok) auto
  have nx: "computeNextPrefixAddr st p = Inr (p_suffix st p + 8)"
    using b Cons.prems by (intro computeNextPrefixAddr_ok) auto
  have ub: "0 \<le> usableSpace st p" "usableSpace st p < INT_MAX"
    using b Cons.prems(6) by (simp_all add: usableSpace_def INT_MAX_def)
  then have cast: "s32 (usableSpace st p) = usableSpace st p" "u64 (usableSpace st p) = usableSpace st p"
    by (simp_all add: s32_id u64_id INT_MAX_def)
  let ?u = "usableSpace st p"
  let ?F = "filter (fits st s) bs"
  define np where "np = (if p_suffix st p + 8 < e then p_suffix st p + 8 else 0)"
  have rest: "findBestFit_loop st s np bf' mu' = Some (pickBest st s ((if bf' = 0 then [] else [bf']) @ ?F))"
    if "(bf' = 0 \<and> mu' = INT_MAX) \<or> (bf' \<noteq> 0 \<and> mu' = usableSpace st bf' \<and> s < mu')" for bf' mu'
  proof (cases "bs = []")
    case True
    with ch have "np = 0" by (simp add: np_def)
    with True show ?thesis by (simp add: findBestFit_loop_null')
  next
    case False
    from chain_nonempty_lt [OF ch False] have lt: "np = p_suffix st p + 8" by (simp add: np_def)
    show ?thesis unfolding lt
      by (rule Cons.IH [OF ch False _ _ _ _ that]) (use b Cons.prems in auto)
  qed
  have gn: "getNextPrefix st p = Inr np"
    using nx Cons.prems(4) by (simp add: getNextPrefix_def np_def)
  have "\<not> fits st s p \<or> (p_allocated st p = 0 \<and> ?u = s)
    \<or> (p_allocated st p = 0 \<and> s < ?u \<and> ?u < mu) \<or> (p_allocated st p = 0 \<and> s < ?u \<and> mu \<le> ?u)"
    unfolding fits_def by linarith
  then consider (skip) "\<not> fits st s p" | (exact) "p_allocated st p = 0" "?u = s"
    | (better) "p_allocated st p = 0" "s < ?u" "?u < mu" | (worse) "p_allocated st p = 0" "s < ?u" "mu \<le> ?u"
    by blast
  then show ?case
  proof cases
    case skip
    have "findBestFit_loop st s p bf mu = findBestFit_loop st s np bf mu"
    proof (cases "p_allocated st p = 0")
      case True
      with skip have "?u < s" by (simp add: fits_def)
      then show ?thesis
        by (simp add: findBestFit_loop_free [OF pos True us cast gn])
    next
      case False
      then show ?thesis by (rule findBestFit_loop_allocated [OF pos _ gn])
    qed
    with skip b rest [OF Cons.prems(7)] show ?thesis by simp
  next
    case exact
    have fit: "fits st s p" using exact by (simp add: fits_def)
    have "findBestFit_loop st s p bf mu = Some (Inr (p, st))"
      using exact by (simp add: findBestFit_loop_free [OF pos exact(1) us cast gn])
    moreover have "pickBest st s (p # ?F) = Inr (p, st)"
      by (rule pickBest_head) (use exact in \<open>auto simp: fits_def\<close>)
    moreover have "bf \<noteq> 0 \<Longrightarrow> pickBest st s (bf # p # ?F) = pickBest st s (p # ?F)"
      by (rule pickBest_second) (use Cons.prems(7) exact in auto)
    ultimately show ?thesis using fit b by simp
  next
    case better
    have fit: "fits st s p" using better by (simp add: fits_def)
    have inv: "(p = 0 \<and> ?u = INT_MAX) \<or> (p \<noteq> 0 \<and> ?u = usableSpace st p \<and> s < ?u)"
      using pos better by simp
    have "findBestFit_loop st s p bf mu = findBestFit_loop st s np p ?u"
      using better by (simp add: findBestFit_loop_free [OF pos better(1) us cast gn])
    moreover have "bf \<noteq> 0 \<Longrightarrow> pickBest st s (bf # p # ?F) = pickBest st s (p # ?F)"
      by (rule pickBest_second) (use Cons.prems(7) better in auto)
    ultimately show ?thesis using fit b pos rest [OF inv] by simp
  next
    case worse
    have fit: "fits st s p" using worse by (simp add: fits_def)
    have bfn: "bf \<noteq> 0" "mu = usableSpace st bf" using Cons.prems(7) worse ub by auto
    have "findBestFit_loop st s p bf mu = findBestFit_loop st s np bf mu"
      using worse by (simp add: findBestFit_loop_free [OF pos worse(1) us cast gn])
    moreover have "pickBest st s (bf # p # ?F) = pickBest st s (bf # ?F)"
      by (rule pickBest_first) (use bfn worse in auto)
    ultimately show ?thesis using fit b bfn rest [OF Cons.prems(7)] by simp
  qed
qed


lemma findBestFit_spec:
  assumes "validArena st bs"
  shows "findBestFit s st = Some (bestFitSpec st s bs)"
proof -
  from assms have "findBestFit_loop st s (arenaBegin st) 0 INT_MAX =
     Some (pickBest st s ((if (0::int) = 0 then [] else [0]) @ filter (fits st s) bs))"
    by (intro findBestFit_loop_chain) (auto simp: validArena_def)
  then show ?thesis
    by (simp add: findBestFit_def bestFitSpec_def)
qed

lemma findFirstFit_spec:
  assumes "validArena st bs"
  shows "findFirstFit s st =
     Some (case find (fits st s) bs of Some q \<Rightarrow> Inr (q, st) | None \<Rightarrow> growArena s st)"
  unfolding findFirstFit_def
  using assms by (intro findFirstFit_loop_chain) (auto simp: validArena_def)

subsection \<open>Splitting and the neighbours of a block\<close>

lemma splitBlock_ok:
  assumes va: "validArena st bs" and mem: "p \<in> set bs"
    and S: "p + 24 \<le> S" "S + 16 \<le> p_suffix st p"
  shows "splitBlock st p S = Inr (splitState st p S)"
proof -
  note m = validArena_mem [OF va mem]
  have nx: "computeNextPrefixAddr st p = Inr (p_suffix st p + 8)"
    by (rule validArena_compute [OF va mem])
  have 1: "makeFreeBlock st S (p_suffix st p + 8 - S) =
     Inr (S, st\<lparr>p_suffix := (p_suffix st)(S := p_suffix st p),
                s_prefix := (s_prefix st)(p_suffix st p := S),
                p_allocated := (p_allocated st)(S := 0)\<rparr>)"
    using makeFreeBlock_ok [of S "p_suffix st p + 8 - S" st] m S by simp
  have 2: "makeFreeBlock st1 p (S - p) =
     Inr (p, st1\<lparr>p_suffix := (p_suffix st1)(p := S - 8),
                s_prefix := (s_prefix st1)(S - 8 := p),
                p_allocated := (p_allocated st1)(p := 0)\<rparr>)" for st1
    using makeFreeBlock_ok [of p "S - p" st1] m S by simp
  have u1: "u64 (p_suffix st p + 8 - S) = p_suffix st p + 8 - S"
    using m S by (intro u64_id) auto
  have u2: "u64 (S - p) = S - p"
    using m S by (intro u64_id) auto
  show ?thesis
    by (simp add: splitBlock_def nx u1 u2 1 2 splitState_def)
qed

lemma validArena_split:
  assumes va: "validArena st (xs @ p # ys)"
    and S: "p + 24 \<le> S" "S + 16 \<le> p_suffix st p"
  shows "validArena (splitState st p S) (xs @ p # S # ys)"
proof -
  let ?st = "splitState st p S"
  let ?E = "p_suffix st p + 8"
  from va have ch: "chain st (arenaBegin st) (xs @ p # ys) (arenaEnd st)"
    by (simp add: validArena_def)
  then obtain m where m: "chain st (arenaBegin st) xs m" "chain st m (p # ys) (arenaEnd st)"
    by (auto simp: chain_append)
  then have mp: "m = p" and rest: "chain st ?E ys (arenaEnd st)" and E: "?E \<le> arenaEnd st"
    and sp: "s_prefix st (p_suffix st p) = p"
    by simp_all
  have 1: "chain ?st (arenaBegin st) xs p"
    using m(1) unfolding mp
    by (rule chain_frame) (use S in \<open>auto simp: splitState_def\<close>)
  have 2: "chain ?st ?E ys (arenaEnd st)"
    using rest
    by (rule chain_frame) (use S in \<open>auto simp: splitState_def\<close>)
  have 3: "chain ?st p (p # S # ys) (arenaEnd st)"
    using 2 S E by (simp add: splitState_def)
  have "chain ?st (arenaBegin st) (xs @ p # S # ys) (arenaEnd st)"
    using 1 3 by (auto simp: chain_append)
  with va show ?thesis
    by (simp add: validArena_def splitState_def)
qed


lemma validArena_last:
  "validArena st bs \<Longrightarrow> p_suffix st (last bs) + 8 = arenaEnd st"
  by (auto simp: validArena_def dest: chain_last)

lemma validArena_oldSize:
  assumes "validArena st bs" "p \<in> set bs"
  shows "resizeOldSize (p + 16) st = Inr (usableSpace st p)"
    "u64 (usableSpace st p) = usableSpace st p"
proof -
  note m = validArena_mem [OF assms]
  from m have "p + 16 \<noteq> 0" by simp
  moreover have "s32 (usableSpace st p) = usableSpace st p"
    using m by (intro s32_id) auto
  ultimately show "resizeOldSize (p + 16) st = Inr (usableSpace st p)"
    by (simp add: resizeOldSize_def validArena_region [OF assms] validArena_compute [OF assms])
  show "u64 (usableSpace st p) = usableSpace st p"
    using m by (intro u64_id) auto
qed

lemma getNextPrefix_last:
  assumes "validArena st bs"
  shows "getNextPrefix st (last bs) = Inr 0"
proof -
  from assms have mem: "last bs \<in> set bs" by (simp add: validArena_def)
  show ?thesis
    using validArena_last [OF assms]
    by (simp add: getNextPrefix_def validArena_compute [OF assms mem])
qed

lemma getPrevPrefix_first:
  assumes "validArena st bs"
  shows "getPrevPrefix st (hd bs) = 0"
proof -
  from assms have "hd bs = arenaBegin st" "8 \<le> arenaBegin st" "arenaBegin st < 2 ^ 64"
    by (cases bs; auto simp: validArena_def dest: chain_le)+
  then show ?thesis
    by (simp add: getPrevPrefix_def computePrevSuffixAddr_def u64_id)
qed


subsection \<open>Allocation from a found block\<close>

lemma chain_before_after:
  assumes "chain st a (xs @ p # ys) e"
  shows "\<forall>q\<in>set xs. p_suffix st q + 8 \<le> p" "\<forall>q\<in>set ys. p_suffix st p + 8 \<le> q"
proof -
  from assms obtain m where m: "chain st a xs m" "chain st m (p # ys) e"
    by (auto simp: chain_append)
  then have mp: "m = p" and r: "chain st (p_suffix st p + 8) ys e" by simp_all
  show "\<forall>q\<in>set xs. p_suffix st q + 8 \<le> p"
    using chain_mem [OF m(1)] mp by blast
  show "\<forall>q\<in>set ys. p_suffix st p + 8 \<le> q"
    using chain_mem [OF r] by blast
qed

lemma chain_distinct: "chain st a bs e \<Longrightarrow> distinct bs"
proof (induction bs arbitrary: a)
  case Nil
  then show ?case by simp
next
  case (Cons b bs)
  then have r: "chain st (p_suffix st a + 8) bs e" and b: "b = a" "a + 16 \<le> p_suffix st a" by simp_all
  have "b \<notin> set bs" using chain_mem [OF r, of b] b by auto
  with Cons.IH [OF r] show ?case by simp
qed

lemma allocBlock_ok:
  assumes va: "validArena st bs" and mem: "p \<in> set bs" and fit: "fits st s p" and s0: "0 \<le> s"
  shows "allocBlock s p st =
     Inr (p + 16,
          if align8 s + 32 \<le> usableSpace st p
          then splitState st p (p + 24 + align8 s)
                 \<lparr>p_allocated := (p_allocated (splitState st p (p + 24 + align8 s)))(p := 1)\<rparr>
          else st\<lparr>p_allocated := (p_allocated st)(p := 1)\<rparr>)"
proof -
  note m = validArena_mem [OF va mem]
  from fit have su: "s \<le> usableSpace st p" by (simp add: fits_def)
  with m s0 have s64: "s + 7 < 2 ^ 64" by simp
  note a = align8_bounds [OF s0 s64]
  have pos: "p \<noteq> 0" using m by simp
  have us: "usableSpace st p = p_suffix st p - (p + 16)" by (simp add: usableSpace_def)
  have c: "u64 (32 + align8 s) = 32 + align8 s"
    using a s0 su m(8) by (intro u64_id) auto
  show ?thesis
  proof (cases "align8 s + 32 \<le> usableSpace st p")
    case True
    from True have "splitBlock st p (p + 24 + align8 s) = Inr (splitState st p (p + 24 + align8 s))"
      using a s0 by (intro splitBlock_ok [OF va mem]) (auto simp: usableSpace_def)
    then have sb: "splitBlock st p (24 + p + align8 s) = Inr (splitState st p (p + 24 + align8 s))"
      by (simp add: add_ac)
    show ?thesis
      using True pos a s0 su m(1,6) us sb
      by (simp add: allocBlock_def validArena_compute [OF va mem]
          setAllocated_def prefixToRegion_def u64_id Let_def)
  next
    case False
    then show ?thesis
      using pos a s0 su m(1,6) us
      by (simp add: allocBlock_def validArena_compute [OF va mem] c
          setAllocated_def prefixToRegion_def u64_id Let_def)
  qed
qed



lemma validArena_disjoint:
  assumes va: "validArena st (xs @ p # ys)" and q: "q \<in> set (xs @ p # ys)" "q \<noteq> p"
  shows "p_suffix st q \<le> p + 16 \<or> p_suffix st p \<le> q + 16"
proof -
  from va have ch: "chain st (arenaBegin st) (xs @ p # ys) (arenaEnd st)"
    by (simp add: validArena_def)
  note ba = chain_before_after [OF ch]
  from q have "q \<in> set xs \<or> q \<in> set ys" by auto
  then show ?thesis
  proof
    assume "q \<in> set xs"
    with ba(1) have "p_suffix st q + 8 \<le> p" by blast
    then show ?thesis by simp
  next
    assume "q \<in> set ys"
    with ba(2) have "p_suffix st p + 8 \<le> q" by blast
    then show ?thesis by simp
  qed
qed


subsection \<open>Coalescing\<close>

lemma validArena_merge:
  assumes va: "validArena st (us @ a # b # ys)"
  shows "validArena (mergeState st a b) (us @ a # ys)"
proof -
  let ?st = "mergeState st a b"
  from va have ch: "chain st (arenaBegin st) (us @ a # b # ys) (arenaEnd st)"
    by (simp add: validArena_def)
  then obtain m where m: "chain st (arenaBegin st) us m" "chain st m (a # b # ys) (arenaEnd st)"
    by (auto simp: chain_append)
  then have ma: "m = a" and a: "a + 16 \<le> p_suffix st a" "b = p_suffix st a + 8"
    and b: "b + 16 \<le> p_suffix st b" "p_suffix st b + 8 \<le> arenaEnd st"
    and rest: "chain st (p_suffix st b + 8) ys (arenaEnd st)"
    by simp_all
  have 1: "chain ?st (arenaBegin st) us a"
    using m(1) unfolding ma
    by (rule chain_frame) (use a b in \<open>auto simp: mergeState_def\<close>)
  have 2: "chain ?st (p_suffix st b + 8) ys (arenaEnd st)"
    using rest
    by (rule chain_frame) (use a b in \<open>auto simp: mergeState_def\<close>)
  have 3: "chain ?st a (a # ys) (arenaEnd st)"
    using 2 a b by (simp add: mergeState_def)
  have "chain ?st (arenaBegin st) (us @ a # ys) (arenaEnd st)"
    using 1 3 by (auto simp: chain_append)
  with va show ?thesis
    by (simp add: validArena_def mergeState_def)
qed

lemma getPrevPrefix_pred:
  assumes va: "validArena st (us @ a # b # ys)"
  shows "getPrevPrefix st b = a"
proof -
  from va have ch: "chain st (arenaBegin st) (us @ a # b # ys) (arenaEnd st)"
    by (simp add: validArena_def)
  then obtain m where m: "chain st (arenaBegin st) us m" "chain st m (a # b # ys) (arenaEnd st)"
    by (auto simp: chain_append)
  then have a: "a + 16 \<le> p_suffix st a" "b = p_suffix st a + 8" "s_prefix st (p_suffix st a) = a"
    "m = a" by simp_all
  have "arenaBegin st \<le> a" using chain_le [OF m(1)] a(4) by simp
  moreover have "8 \<le> b" "b < 2 ^ 64"
    using validArena_mem [OF va, of b] by simp_all
  ultimately show ?thesis
    using a by (simp add: getPrevPrefix_def computePrevSuffixAddr_def u64_id)
qed

lemma coalescePrev_first:
  assumes va: "validArena st (b # ys)"
  shows "coalescePrev st b = Inr (b, st)"
  using getPrevPrefix_first [OF va] by (simp add: coalescePrev_def)

lemma coalescePrev_pred:
  assumes va: "validArena st (us @ a # b # ys)"
  shows "coalescePrev st b =
     Inr (if p_allocated st b = 0 \<and> p_allocated st a = 0 then (a, mergeState st a b) else (b, st))"
proof -
  have ma: "a \<in> set (us @ a # b # ys)" and mb: "b \<in> set (us @ a # b # ys)" by simp_all
  note A = validArena_mem [OF va ma]
  note B = validArena_mem [OF va mb]
  from va have ch: "chain st (arenaBegin st) (us @ a # b # ys) (arenaEnd st)"
    by (simp add: validArena_def)
  then obtain m where m: "chain st (arenaBegin st) us m" "chain st m (a # b # ys) (arenaEnd st)"
    by (auto simp: chain_append)
  then have ab: "b = p_suffix st a + 8" by simp
  have sz: "u64 (p_suffix st b + 8 - a) = p_suffix st b + 8 - a"
    using A B ab by (intro u64_id) auto
  have mk: "makeFreeBlock st a (p_suffix st b + 8 - a) = Inr (a, mergeState st a b)"
    using makeFreeBlock_ok [of a "p_suffix st b + 8 - a" st] A B ab
    by (simp add: mergeState_def)
  show ?thesis
    using A(1) B(1)
    by (simp add: coalescePrev_def getPrevPrefix_pred [OF va] validArena_compute [OF va mb] sz mk)
qed



lemma getNextPrefix_succ:
  assumes va: "validArena st (us @ q # n # ys)"
  shows "getNextPrefix st q = Inr n" "n = p_suffix st q + 8"
proof -
  have mq: "q \<in> set (us @ q # n # ys)" and mn: "n \<in> set (us @ q # n # ys)" by simp_all
  from va have ch: "chain st (arenaBegin st) (us @ q # n # ys) (arenaEnd st)"
    by (simp add: validArena_def)
  then obtain m where m: "chain st (arenaBegin st) us m" "chain st m (q # n # ys) (arenaEnd st)"
    by (auto simp: chain_append)
  then show n: "n = p_suffix st q + 8" by simp
  note N = validArena_mem [OF va mn]
  show "getNextPrefix st q = Inr n"
    using N n by (simp add: getNextPrefix_def validArena_compute [OF va mq])
qed

lemma mergeState_views:
  assumes va: "validArena st (us @ a # b # ys)"
  shows "p_suffix (mergeState st a b) a = p_suffix st b" "p_allocated (mergeState st a b) a = 0"
  by (simp_all add: mergeState_def)

lemma mergeState_flags:
  "p_allocated st a = 0 \<Longrightarrow> p_allocated (mergeState st a b) = p_allocated st"
  by (auto simp: mergeState_def)

lemma mergeState_others:
  assumes va: "validArena st (us @ a # b # ys)"
  shows "\<forall>q\<in>set us \<union> set ys. p_suffix (mergeState st a b) q = p_suffix st q
        \<and> p_allocated (mergeState st a b) q = p_allocated st q"
proof -
  from va have "chain st (arenaBegin st) (us @ a # b # ys) (arenaEnd st)"
    by (simp add: validArena_def)
  then have "distinct (us @ a # b # ys)" by (rule chain_distinct)
  then have "\<forall>q\<in>set us \<union> set ys. q \<noteq> a" by auto
  then show ?thesis by (auto simp: mergeState_def)
qed

lemma mergeState_frame:
  "arenaBegin (mergeState st a b) = arenaBegin st" "arenaEnd (mergeState st a b) = arenaEnd st"
  "growingDisabled (mergeState st a b) = growingDisabled st" "brk (mergeState st a b) = brk st"
  "bytes (mergeState st a b) = bytes st"
  by (simp_all add: mergeState_def)

lemma coalescePrev_step:
  assumes va: "validArena st (xs @ p # ys)" and fp: "p_allocated st p = 0"
  defines "pm \<equiv> xs \<noteq> [] \<and> p_allocated st (last xs) = 0"
  defines "us \<equiv> (if pm then butlast xs else xs)"
  defines "q \<equiv> (if pm then last xs else p)"
  defines "st2 \<equiv> (if pm then mergeState st (last xs) p else st)"
  shows "coalescePrev st p = Inr (q, st2)" "validArena st2 (us @ q # ys)"
    "p_allocated st2 q = 0" "q \<le> p" "p_suffix st2 q = p_suffix st p"
    "\<forall>c\<in>set us \<union> set ys. p_suffix st2 c = p_suffix st c \<and> p_allocated st2 c = p_allocated st c"
    "arenaBegin st2 = arenaBegin st \<and> arenaEnd st2 = arenaEnd st
       \<and> growingDisabled st2 = growingDisabled st \<and> bytes st2 = bytes st"
proof -
  have all: "coalescePrev st p = Inr (q, st2) \<and> validArena st2 (us @ q # ys)
    \<and> p_allocated st2 q = 0 \<and> q \<le> p \<and> p_suffix st2 q = p_suffix st p
    \<and> (\<forall>c\<in>set us \<union> set ys. p_suffix st2 c = p_suffix st c
          \<and> p_allocated st2 c = p_allocated st c)
    \<and> arenaBegin st2 = arenaBegin st \<and> arenaEnd st2 = arenaEnd st
    \<and> growingDisabled st2 = growingDisabled st \<and> bytes st2 = bytes st"
  proof (cases "xs = []")
    case True
    then have "\<not> pm" by (simp add: pm_def)
    then show ?thesis
      using coalescePrev_first [of st p ys] va True fp by (simp add: us_def q_def st2_def)
  next
    case False
    then obtain xs' a where xs: "xs = xs' @ [a]" by (metis append_butlast_last_id)
    with va have va': "validArena st (xs' @ a # p # ys)" by simp
    note cp = coalescePrev_pred [OF va']
    show ?thesis
    proof (cases "p_allocated st a = 0")
      case True
      then have pm: "pm" by (simp add: pm_def xs)
      from va' have ch: "chain st (arenaBegin st) (xs' @ a # p # ys) (arenaEnd st)"
        by (simp add: validArena_def)
      from chain_before_after(2) [OF ch] have ap: "a \<le> p"
        using validArena_mem(2) [OF va', of a] by auto
      note mv = mergeState_views [OF va'] and mo = mergeState_others [OF va']
      have "coalescePrev st p = Inr (a, mergeState st a p)"
        using cp True fp by simp
      moreover have "validArena (mergeState st a p) (xs' @ a # ys)"
        by (rule validArena_merge [OF va'])
      ultimately show ?thesis
        using pm ap mv mo by (simp add: us_def q_def st2_def xs mergeState_frame)
    next
      case False
      then have "\<not> pm" by (simp add: pm_def xs)
      then show ?thesis
        using cp False fp va by (simp add: us_def q_def st2_def)
    qed
  qed
  from all show "coalescePrev st p = Inr (q, st2)" "validArena st2 (us @ q # ys)"
    "p_allocated st2 q = 0" "q \<le> p" "p_suffix st2 q = p_suffix st p"
    "\<forall>c\<in>set us \<union> set ys. p_suffix st2 c = p_suffix st c \<and> p_allocated st2 c = p_allocated st c"
    "arenaBegin st2 = arenaBegin st \<and> arenaEnd st2 = arenaEnd st
       \<and> growingDisabled st2 = growingDisabled st \<and> bytes st2 = bytes st"
    by blast+
qed

lemma coalesceNext_step:
  assumes va: "validArena st (us @ q # ys)" and fq: "p_allocated st q = 0"
  defines "sm \<equiv> ys \<noteq> [] \<and> p_allocated st (hd ys) = 0"
  defines "rest \<equiv> (if sm then tl ys else ys)"
  defines "st3 \<equiv> (if sm then mergeState st q (hd ys) else st)"
  shows "bindE (getNextPrefix st q)
            (\<lambda>next. if next \<noteq> 0 then coalescePrev st next else Inr (q, st))
          = Inr (if ys \<noteq> [] \<and> \<not> sm then hd ys else q, st3)"
    "validArena st3 (us @ q # rest)" "p_allocated st3 q = 0"
    "p_suffix st q \<le> p_suffix st3 q"
    "\<forall>c\<in>set us \<union> set rest. p_suffix st3 c = p_suffix st c \<and> p_allocated st3 c = p_allocated st c"
    "arenaBegin st3 = arenaBegin st \<and> arenaEnd st3 = arenaEnd st
       \<and> growingDisabled st3 = growingDisabled st \<and> bytes st3 = bytes st"
proof -
  have all: "bindE (getNextPrefix st q)
            (\<lambda>next. if next \<noteq> 0 then coalescePrev st next else Inr (q, st))
          = Inr (if ys \<noteq> [] \<and> \<not> sm then hd ys else q, st3)
    \<and> validArena st3 (us @ q # rest) \<and> p_allocated st3 q = 0
    \<and> p_suffix st q \<le> p_suffix st3 q
    \<and> (\<forall>c\<in>set us \<union> set rest. p_suffix st3 c = p_suffix st c
          \<and> p_allocated st3 c = p_allocated st c)
    \<and> arenaBegin st3 = arenaBegin st \<and> arenaEnd st3 = arenaEnd st
    \<and> growingDisabled st3 = growingDisabled st \<and> bytes st3 = bytes st"
  proof (cases ys)
    case Nil
    then have nsm: "\<not> sm" by (simp add: sm_def)
    have "last (us @ q # ys) = q" using Nil by simp
    with getNextPrefix_last [OF va] have "getNextPrefix st q = Inr 0" by simp
    then show ?thesis
      using nsm va Nil fq by (simp add: rest_def st3_def)
  next
    case (Cons n ys')
    with va have va': "validArena st (us @ q # n # ys')" by simp
    have mq: "q \<in> set (us @ q # n # ys')" and mn: "n \<in> set (us @ q # n # ys')" by simp_all
    note N = validArena_mem [OF va' mn]
    have gn: "getNextPrefix st q = Inr n" and n: "n = p_suffix st q + 8"
      using getNextPrefix_succ [OF va'] by simp_all
    have n0: "n \<noteq> 0" using N by simp
    note cp = coalescePrev_pred [OF va']
    show ?thesis
    proof (cases "p_allocated st n = 0")
      case True
      then have sm: "sm" by (simp add: sm_def Cons)
      note mv = mergeState_views [OF va'] and mo = mergeState_others [OF va']
      have "coalescePrev st n = Inr (q, mergeState st q n)"
        using cp True fq by simp
      moreover have "validArena (mergeState st q n) (us @ q # ys')"
        by (rule validArena_merge [OF va'])
      moreover have "p_suffix st q \<le> p_suffix st n" using N(2) n by simp
      ultimately show ?thesis
        using sm gn n0 mv mo by (simp add: rest_def st3_def Cons mergeState_frame)
    next
      case False
      then have "\<not> sm" by (simp add: sm_def Cons)
      then show ?thesis
        using cp False fq va gn n0 by (simp add: rest_def st3_def Cons)
    qed
  qed
  from all show "bindE (getNextPrefix st q)
            (\<lambda>next. if next \<noteq> 0 then coalescePrev st next else Inr (q, st))
          = Inr (if ys \<noteq> [] \<and> \<not> sm then hd ys else q, st3)"
    "validArena st3 (us @ q # rest)" "p_allocated st3 q = 0"
    "p_suffix st q \<le> p_suffix st3 q"
    "\<forall>c\<in>set us \<union> set rest. p_suffix st3 c = p_suffix st c \<and> p_allocated st3 c = p_allocated st c"
    "arenaBegin st3 = arenaBegin st \<and> arenaEnd st3 = arenaEnd st
       \<and> growingDisabled st3 = growingDisabled st \<and> bytes st3 = bytes st"
    by blast+
qed

lemma regionOf_result: "regionOf x = Some r \<Longrightarrow> x = Some (Inr (r, resultState x))"
  by (auto simp: regionOf_def resultState_def split: option.splits sum.splits)

subsection \<open>Blocks after a write\<close>

text \<open>
  What the blocks of a valid arena look like after the three kinds of write the allocator
  makes: a flag is set, a block is split, two neighbours are merged.
\<close>

lemma setAllocated_ok: "p \<noteq> 0 \<Longrightarrow> setAllocated st p v = Inr (setFlag st p v)"
  by (simp add: setAllocated_def setFlag_def)

lemma setFlag_valid:
  "validArena st bs \<Longrightarrow> p \<in> set bs \<Longrightarrow> validArena (setFlag st p v) bs"
  unfolding setFlag_def by (rule validArena_allocated_upd)

lemma setFlag_views:
  assumes "validArena st bs" "p \<in> set bs" "q \<in> set bs" "v = 0 \<or> v = 1"
  shows "p_suffix (setFlag st p v) q = p_suffix st q"
    "p_allocated (setFlag st p v) q = (if q = p then v else p_allocated st q)"
  by (simp_all add: setFlag_def)

lemma setFlag_bounds:
  "arenaBegin (setFlag st p v) = arenaBegin st" "arenaEnd (setFlag st p v) = arenaEnd st"
  "growingDisabled (setFlag st p v) = growingDisabled st" "brk (setFlag st p v) = brk st"
  "bytes (setFlag st p v) = bytes st"
  by (simp_all add: setFlag_def)

lemma splitState_views:
  assumes va: "validArena st (xs @ p # ys)"
    and S: "p + 24 \<le> S" "S + 16 \<le> p_suffix st p"
  shows "p_suffix (splitState st p S) p = S - 8" "p_suffix (splitState st p S) S = p_suffix st p"
    "p_allocated (splitState st p S) p = 0" "p_allocated (splitState st p S) S = 0"
    "\<forall>q\<in>set xs \<union> set ys. p_suffix (splitState st p S) q = p_suffix st q
        \<and> p_allocated (splitState st p S) q = p_allocated st q"
proof -
  from va have ch: "chain st (arenaBegin st) (xs @ p # ys) (arenaEnd st)"
    by (simp add: validArena_def)
  note ba = chain_before_after [OF ch]
  have others: "q \<noteq> S \<and> q \<noteq> p" if "q \<in> set xs \<union> set ys" for q
  proof -
    from that have "q \<in> set xs \<or> q \<in> set ys" by auto
    then show ?thesis
    proof
      assume q: "q \<in> set xs"
      with ba(1) have "p_suffix st q + 8 \<le> p" by blast
      moreover from validArena_mem(2) [OF va, of q] q have "q + 16 \<le> p_suffix st q" by simp
      ultimately show ?thesis using S by simp
    next
      assume "q \<in> set ys"
      with ba(2) have "p_suffix st p + 8 \<le> q" by blast
      then show ?thesis using S by simp
    qed
  qed
  show "p_suffix (splitState st p S) p = S - 8" "p_suffix (splitState st p S) S = p_suffix st p"
    "p_allocated (splitState st p S) p = 0" "p_allocated (splitState st p S) S = 0"
    using S by (simp_all add: splitState_def)
  show "\<forall>q\<in>set xs \<union> set ys. p_suffix (splitState st p S) q = p_suffix st q
        \<and> p_allocated (splitState st p S) q = p_allocated st q"
    using others by (auto simp: splitState_def)
qed

lemma splitState_bounds:
  "arenaBegin (splitState st p S) = arenaBegin st" "arenaEnd (splitState st p S) = arenaEnd st"
  "growingDisabled (splitState st p S) = growingDisabled st" "brk (splitState st p S) = brk st"
  "bytes (splitState st p S) = bytes st"
  by (simp_all add: splitState_def)

lemma allocBlock_state:
  assumes va: "validArena st bs" and mem: "p \<in> set bs" and fit: "fits st s p" and s0: "0 \<le> s"
  shows "allocBlock s p st =
     Inr (p + 16,
          if align8 s + 32 \<le> usableSpace st p
          then setFlag (splitState st p (p + 24 + align8 s)) p 1
          else setFlag st p 1)"
  using allocBlock_ok [OF assms] by (simp add: setFlag_def)

subsection \<open>The first call\<close>

lemma initializeArena_fresh:
  assumes "fresh st"
  shows "\<exists>st1. initializeArena st = Inr st1 \<and> validArena st1 [brk st]
      \<and> arenaBegin st1 = brk st \<and> arenaEnd st1 = brk st + DEFAULT_BRKSIZE
      \<and> p_allocated st1 (brk st) = 0 \<and> usableSpace st1 (brk st) = DEFAULT_BRKSIZE - 24
      \<and> growingDisabled st1 = growingDisabled st"
  using assms
  by (simp add: fresh_def initializeArena_def sbrk_def makeFreeBlock_ok DEFAULT_BRKSIZE_def
      u64_id validArena_def usableSpace_def)

lemma initializeArena_done: "arenaBegin st \<noteq> 0 \<Longrightarrow> initializeArena st = Inr st"
  by (simp add: initializeArena_def)

subsection \<open>The block a search returns\<close>

lemma find_split:
  "List.find P bs = Some p \<Longrightarrow> \<exists>xs ys. bs = xs @ p # ys \<and> P p \<and> (\<forall>c\<in>set xs. \<not> P c)"
proof (induction bs)
  case Nil
  then show ?case by simp
next
  case (Cons b bs)
  show ?case
  proof (cases "P b")
    case True
    with Cons.prems have "b # bs = [] @ p # bs \<and> P p \<and> (\<forall>c\<in>set []. \<not> P c)" by simp
    then show ?thesis by blast
  next
    case False
    with Cons.prems have "List.find P bs = Some p" by simp
    from Cons.IH [OF this] obtain xs ys where "bs = xs @ p # ys" "P p" "\<forall>c\<in>set xs. \<not> P c"
      by blast
    with False have "b # bs = (b # xs) @ p # ys \<and> P p \<and> (\<forall>c\<in>set (b # xs). \<not> P c)" by simp
    then show ?thesis by blast
  qed
qed

lemma findFirstFit_pick:
  assumes va: "validArena st bs" and gd: "growingDisabled st \<noteq> 0"
  shows "if \<exists>q\<in>set bs. fits st s q
         then \<exists>xs p ys. bs = xs @ p # ys \<and> fits st s p \<and> (\<forall>c\<in>set xs. \<not> fits st s c)
                \<and> findFirstFit s st = Some (Inr (p, st))
         else findFirstFit s st = Some (Inr (0, st))"
proof (cases "List.find (fits st s) bs")
  case None
  then have "\<not> (\<exists>q\<in>set bs. fits st s q)" by (auto simp: find_None_iff)
  with None gd show ?thesis
    by (simp add: findFirstFit_spec [OF va] growArena_def)
next
  case (Some p)
  from find_split [OF Some] obtain xs ys where
    x: "bs = xs @ p # ys" "fits st s p" "\<forall>c\<in>set xs. \<not> fits st s c" by blast
  then have ex: "\<exists>q\<in>set bs. fits st s q" by auto
  have "findFirstFit s st = Some (Inr (p, st))"
    using Some by (simp add: findFirstFit_spec [OF va])
  with x have "\<exists>xs p ys. bs = xs @ p # ys \<and> fits st s p \<and> (\<forall>c\<in>set xs. \<not> fits st s c)
                \<and> findFirstFit s st = Some (Inr (p, st))" by blast
  with ex show ?thesis by simp
qed

lemma findBestFit_pick:
  assumes va: "validArena st bs" and gd: "growingDisabled st \<noteq> 0"
  shows "if \<exists>q\<in>set bs. fits st s q
         then \<exists>xs p ys. bs = xs @ p # ys \<and> fits st s p
                \<and> (\<forall>c\<in>set xs. fits st s c \<longrightarrow> usableSpace st p < usableSpace st c)
                \<and> (\<forall>c\<in>set ys. fits st s c \<longrightarrow> usableSpace st p \<le> usableSpace st c)
                \<and> findBestFit s st = Some (Inr (p, st))
         else findBestFit s st = Some (Inr (0, st))"
proof (cases "filter (fits st s) bs = []")
  case True
  then have "\<not> (\<exists>q\<in>set bs. fits st s q)" by (auto simp: filter_empty_conv)
  with True gd show ?thesis
    by (simp add: findBestFit_spec [OF va] bestFitSpec_def pickBest_def growArena_def)
next
  case False
  let ?u = "usableSpace st"
  let ?F = "filter (fits st s) bs"
  let ?q = "arg_min_list ?u ?F"
  from False have ex: "\<exists>q\<in>set bs. fits st s q" by (auto simp: filter_empty_conv)
  from arg_min_list_decomp [OF False, of ?u] obtain A B where AB: "?F = A @ ?q # B"
    "\<forall>a\<in>set A. ?u ?q < ?u a" "\<forall>b\<in>set B. ?u ?q \<le> ?u b" by blast
  from filter_decomp [OF AB(1)] obtain xs ys where
    xy: "bs = xs @ ?q # ys" "filter (fits st s) xs = A" "filter (fits st s) ys = B" "fits st s ?q"
    by blast
  have 1: "\<forall>c\<in>set xs. fits st s c \<longrightarrow> ?u ?q < ?u c"
    using AB(2) xy(2) by auto
  have 2: "\<forall>c\<in>set ys. fits st s c \<longrightarrow> ?u ?q \<le> ?u c"
    using AB(3) xy(3) by auto
  have "findBestFit s st = Some (Inr (?q, st))"
    using False by (simp add: findBestFit_spec [OF va] bestFitSpec_def pickBest_def)
  with xy(1,4) 1 2 have "\<exists>xs p ys. bs = xs @ p # ys \<and> fits st s p
                \<and> (\<forall>c\<in>set xs. fits st s c \<longrightarrow> usableSpace st p < usableSpace st c)
                \<and> (\<forall>c\<in>set ys. fits st s c \<longrightarrow> usableSpace st p \<le> usableSpace st c)
                \<and> findBestFit s st = Some (Inr (p, st))" by blast
  with ex show ?thesis by simp
qed

subsection \<open>Allocation from a fitting block\<close>

lemma allocBlock_result:
  assumes va: "validArena st (xs @ p # ys)" and al: "\<forall>b\<in>set (xs @ p # ys). b mod 8 = 0"
    and fit: "fits st s p" and s0: "0 \<le> s"
  shows "\<exists>st'. allocBlock s p st = Inr (p + prefixSize, st')
      \<and> (let split = (align8 s + prefixSize + suffixSize + 8 \<le> usableSpace st p);
              sliver = p + prefixSize + suffixSize + align8 s;
              bs' = (if split then xs @ p # sliver # ys else xs @ p # ys)
          in validArena st' bs' \<and> (\<forall>b\<in>set bs'. b mod 8 = 0)
             \<and> usableSpace st' p = (if split then align8 s else usableSpace st p)
             \<and> s \<le> usableSpace st' p
             \<and> (p + prefixSize) mod 8 = 0
             \<and> p_allocated st' p = 1
             \<and> (split \<longrightarrow> p_allocated st' sliver = 0
                   \<and> usableSpace st' sliver = usableSpace st p - align8 s - prefixSize - suffixSize)
             \<and> (\<forall>q\<in>set (xs @ p # ys). q \<noteq> p \<longrightarrow>
                   p_allocated st' q = p_allocated st q \<and> p_suffix st' q = p_suffix st q)
             \<and> (\<forall>q\<in>set bs'. q \<noteq> p \<longrightarrow>
                   p_suffix st' q \<le> p + prefixSize
                   \<or> p + prefixSize + usableSpace st' p \<le> q + prefixSize)
             \<and> arenaBegin st' = arenaBegin st \<and> arenaEnd st' = arenaEnd st
             \<and> growingDisabled st' = growingDisabled st)"
proof -
  let ?bs = "xs @ p # ys"
  have mem: "p \<in> set ?bs" by simp
  note m = validArena_mem [OF va mem]
  from fit have su: "s \<le> usableSpace st p" by (simp add: fits_def)
  with m s0 have s64: "s + 7 < 2 ^ 64" by simp
  note a8 = align8_bounds [OF s0 s64]
  let ?S = "p + 24 + align8 s"
  let ?sp = "splitState st p ?S"
  note ab = allocBlock_state [OF va mem fit s0]
  from al have pm: "p mod 8 = 0" by simp
  then have rm: "(p + 16) mod 8 = 0" by presburger
  from va have "chain st (arenaBegin st) ?bs (arenaEnd st)" by (simp add: validArena_def)
  then have "distinct ?bs" by (rule chain_distinct)
  then have dist: "p \<notin> set xs" "p \<notin> set ys" by simp_all
  show ?thesis
  proof (cases "align8 s + 32 \<le> usableSpace st p")
    case True
    let ?st' = "setFlag ?sp p 1"
    from ab True have e: "allocBlock s p st = Inr (p + 16, ?st')" by simp
    have S: "p + 24 \<le> ?S" "?S + 16 \<le> p_suffix st p"
      using a8 s0 True by (simp_all add: usableSpace_def)
    note vs = validArena_split [OF va S]
    note sv = splitState_views [OF va S]
    have pin: "p \<in> set (xs @ p # ?S # ys)" and Sin: "?S \<in> set (xs @ p # ?S # ys)" by simp_all
    have va': "validArena ?st' (xs @ p # ?S # ys)"
      by (rule setFlag_valid [OF vs pin])
    have fv: "p_suffix ?st' q = p_suffix ?sp q"
      "p_allocated ?st' q = (if q = p then 1 else p_allocated ?sp q)"
      if "q \<in> set (xs @ p # ?S # ys)" for q
      using setFlag_views [OF vs pin that, of 1] by simp_all
    have Sp: "?S \<noteq> p" using a8 s0 by simp
    have u': "usableSpace ?st' p = align8 s"
      using fv(1) [OF pin] sv(1) by (simp add: usableSpace_def)
    have pa: "p_allocated ?st' p = 1" using fv(2) [OF pin] by simp
    have sl: "p_allocated ?st' ?S = 0" "usableSpace ?st' ?S = usableSpace st p - align8 s - 16 - 8"
      using fv [OF Sin] sv(2,4) Sp by (simp_all add: usableSpace_def)
    have oth: "\<forall>q\<in>set ?bs. q \<noteq> p \<longrightarrow> p_allocated ?st' q = p_allocated st q \<and> p_suffix ?st' q = p_suffix st q"
    proof (intro ballI impI)
      fix q assume q: "q \<in> set ?bs" "q \<noteq> p"
      then have q': "q \<in> set xs \<union> set ys" by auto
      then have "q \<in> set (xs @ p # ?S # ys)" by auto
      from fv [OF this] sv(5) q' q(2)
      show "p_allocated ?st' q = p_allocated st q \<and> p_suffix ?st' q = p_suffix st q" by simp
    qed
    have dj: "\<forall>q\<in>set (xs @ p # ?S # ys). q \<noteq> p \<longrightarrow>
        p_suffix ?st' q \<le> p + 16 \<or> p + 16 + usableSpace ?st' p \<le> q + 16"
    proof (intro ballI impI)
      fix q assume q: "q \<in> set (xs @ p # ?S # ys)" "q \<noteq> p"
      from validArena_disjoint [OF va' q]
      show "p_suffix ?st' q \<le> p + 16 \<or> p + 16 + usableSpace ?st' p \<le> q + 16"
        by (simp add: usableSpace_def)
    qed
    have Sm: "?S mod 8 = 0" using pm a8(3) by presburger
    have al': "\<forall>b\<in>set (xs @ p # ?S # ys). b mod 8 = 0" using al Sm by auto
    have bd: "arenaBegin ?st' = arenaBegin st" "arenaEnd ?st' = arenaEnd st"
      "growingDisabled ?st' = growingDisabled st"
      by (simp_all add: setFlag_bounds splitState_bounds)
    from True have split: "align8 s + prefixSize + suffixSize + 8 \<le> usableSpace st p" by simp
    have S': "p + prefixSize + suffixSize + align8 s = ?S" by simp
    show ?thesis
      apply (rule exI [of _ ?st'])
      apply (simp only: Let_def split S' if_True)
      using e va' al' u' a8(1) rm pa sl oth dj bd by simp
  next
    case False
    let ?st' = "setFlag st p 1"
    from ab False have e: "allocBlock s p st = Inr (p + 16, ?st')" by simp
    have va': "validArena ?st' ?bs" by (rule setFlag_valid [OF va mem])
    have fv: "p_suffix ?st' q = p_suffix st q"
      "p_allocated ?st' q = (if q = p then 1 else p_allocated st q)"
      if "q \<in> set ?bs" for q
      using setFlag_views [OF va mem that, of 1] by simp_all
    have u': "usableSpace ?st' p = usableSpace st p"
      using fv(1) [OF mem] by (simp add: usableSpace_def)
    have pa: "p_allocated ?st' p = 1" using fv(2) [OF mem] by simp
    have oth: "\<forall>q\<in>set ?bs. q \<noteq> p \<longrightarrow> p_allocated ?st' q = p_allocated st q \<and> p_suffix ?st' q = p_suffix st q"
      using fv by simp
    have dj: "\<forall>q\<in>set ?bs. q \<noteq> p \<longrightarrow>
        p_suffix ?st' q \<le> p + 16 \<or> p + 16 + usableSpace ?st' p \<le> q + 16"
    proof (intro ballI impI)
      fix q assume q: "q \<in> set ?bs" "q \<noteq> p"
      from validArena_disjoint [OF va' q]
      show "p_suffix ?st' q \<le> p + 16 \<or> p + 16 + usableSpace ?st' p \<le> q + 16"
        by (simp add: usableSpace_def)
    qed
    have bd: "arenaBegin ?st' = arenaBegin st" "arenaEnd ?st' = arenaEnd st"
      "growingDisabled ?st' = growingDisabled st"
      by (simp_all add: setFlag_bounds)
    from False have split: "\<not> align8 s + prefixSize + suffixSize + 8 \<le> usableSpace st p" by simp
    show ?thesis
      apply (rule exI [of _ ?st'])
      apply (simp only: Let_def split if_False)
      using e va' al u' su rm pa oth dj bd by simp
  qed
qed

lemma alloc_valid:
  assumes va: "validArena st1 bs" and gd1: "growingDisabled st1 \<noteq> 0"
    and al: "\<forall>b\<in>set bs. b mod 8 = 0" and s0: "0 \<le> s"
    and f: "(alloc, first) = (firstFitAllocRegion, True) \<or> (alloc, first) = (bestFitAllocRegion, False)"
  shows "if \<exists>q\<in>set bs. fits st1 s q
         then \<exists>xs p ys st'. bs = xs @ p # ys \<and> fits st1 s p
           \<and> (if first then \<forall>c\<in>set xs. \<not> fits st1 s c
               else (\<forall>c\<in>set xs. fits st1 s c \<longrightarrow> usableSpace st1 p < usableSpace st1 c)
                  \<and> (\<forall>c\<in>set ys. fits st1 s c \<longrightarrow> usableSpace st1 p \<le> usableSpace st1 c))
           \<and> alloc s st1 = Some (Inr (p + prefixSize, st'))
           \<and> (let split = (align8 s + prefixSize + suffixSize + 8 \<le> usableSpace st1 p);
                   sliver = p + prefixSize + suffixSize + align8 s;
                   bs' = (if split then xs @ p # sliver # ys else xs @ p # ys)
               in validArena st' bs' \<and> (\<forall>b\<in>set bs'. b mod 8 = 0)
                  \<and> usableSpace st' p = (if split then align8 s else usableSpace st1 p)
                  \<and> s \<le> usableSpace st' p
                  \<and> (p + prefixSize) mod 8 = 0
                  \<and> p_allocated st' p = 1
                  \<and> (split \<longrightarrow> p_allocated st' sliver = 0
                        \<and> usableSpace st' sliver
                            = usableSpace st1 p - align8 s - prefixSize - suffixSize)
                  \<and> (\<forall>q\<in>set (xs @ p # ys). q \<noteq> p \<longrightarrow>
                        p_allocated st' q = p_allocated st1 q \<and> p_suffix st' q = p_suffix st1 q)
                  \<and> (\<forall>q\<in>set bs'. q \<noteq> p \<longrightarrow>
                        p_suffix st' q \<le> p + prefixSize
                        \<or> p + prefixSize + usableSpace st' p \<le> q + prefixSize)
                  \<and> arenaBegin st' = arenaBegin st1 \<and> arenaEnd st' = arenaEnd st1
                  \<and> growingDisabled st' = growingDisabled st1)
         else alloc s st1 = Some (Inr (0, st1))"
proof -
  from va have "arenaBegin st1 \<noteq> 0" by (simp add: validArena_def)
  then have i: "(if arenaBegin st1 = 0 then initializeArena st1 else Inr st1) = Inr st1" by simp
  let ?k = "\<lambda>(p, st2). if p \<noteq> 0 then Some (allocBlock s p st2) else Some (Inr (0, st2))"
  let ?pick = "\<lambda>xs p ys. if first then \<forall>c\<in>set xs. \<not> fits st1 s c
               else (\<forall>c\<in>set xs. fits st1 s c \<longrightarrow> usableSpace st1 p < usableSpace st1 c)
                  \<and> (\<forall>c\<in>set ys. fits st1 s c \<longrightarrow> usableSpace st1 p \<le> usableSpace st1 c)"
  have search: "if \<exists>q\<in>set bs. fits st1 s q
         then \<exists>xs p ys. bs = xs @ p # ys \<and> fits st1 s p \<and> ?pick xs p ys
                \<and> alloc s st1 = Some (allocBlock s p st1)
         else alloc s st1 = Some (Inr (0, st1))"
  proof (rule disjE [OF f])
    assume "(alloc, first) = (firstFitAllocRegion, True)"
    then have a: "alloc s st1 = bindO (findFirstFit s st1) ?k" and fi: "first"
      using i by (simp_all add: firstFitAllocRegion_def)
    show ?thesis
    proof (cases "\<exists>q\<in>set bs. fits st1 s q")
      case True
      with findFirstFit_pick [OF va gd1, of s] obtain xs p ys where
        x: "bs = xs @ p # ys" "fits st1 s p" "\<forall>c\<in>set xs. \<not> fits st1 s c"
        "findFirstFit s st1 = Some (Inr (p, st1))" by auto
      have "p \<in> set bs" by (simp add: x(1))
      from validArena_mem(1) [OF va this] have "p \<noteq> 0" by simp
      with x a fi have "bs = xs @ p # ys \<and> fits st1 s p \<and> ?pick xs p ys
                \<and> alloc s st1 = Some (allocBlock s p st1)" by simp
      then have "\<exists>xs p ys. bs = xs @ p # ys \<and> fits st1 s p \<and> ?pick xs p ys
                \<and> alloc s st1 = Some (allocBlock s p st1)" by blast
      with True show ?thesis by simp
    next
      case False
      with findFirstFit_pick [OF va gd1, of s] a show ?thesis by simp
    qed
  next
    assume "(alloc, first) = (bestFitAllocRegion, False)"
    then have a: "alloc s st1 = bindO (findBestFit s st1) ?k" and fi: "\<not> first"
      using i by (simp_all add: bestFitAllocRegion_def)
    show ?thesis
    proof (cases "\<exists>q\<in>set bs. fits st1 s q")
      case True
      with findBestFit_pick [OF va gd1, of s] obtain xs p ys where
        x: "bs = xs @ p # ys" "fits st1 s p"
        "\<forall>c\<in>set xs. fits st1 s c \<longrightarrow> usableSpace st1 p < usableSpace st1 c"
        "\<forall>c\<in>set ys. fits st1 s c \<longrightarrow> usableSpace st1 p \<le> usableSpace st1 c"
        "findBestFit s st1 = Some (Inr (p, st1))" by auto
      have "p \<in> set bs" by (simp add: x(1))
      from validArena_mem(1) [OF va this] have "p \<noteq> 0" by simp
      with x a fi have "bs = xs @ p # ys \<and> fits st1 s p \<and> ?pick xs p ys
                \<and> alloc s st1 = Some (allocBlock s p st1)" by simp
      then have "\<exists>xs p ys. bs = xs @ p # ys \<and> fits st1 s p \<and> ?pick xs p ys
                \<and> alloc s st1 = Some (allocBlock s p st1)" by blast
      with True show ?thesis by simp
    next
      case False
      with findBestFit_pick [OF va gd1, of s] a show ?thesis by simp
    qed
  qed
  show ?thesis
  proof (cases "\<exists>q\<in>set bs. fits st1 s q")
    case True
    with search obtain xs p ys where x: "bs = xs @ p # ys" "fits st1 s p" "?pick xs p ys"
      "alloc s st1 = Some (allocBlock s p st1)" by auto
    from allocBlock_result [OF va [unfolded x(1)] al [unfolded x(1)] x(2) s0]
    obtain st' where r: "allocBlock s p st1 = Inr (p + prefixSize, st')"
      and body: "let split = (align8 s + prefixSize + suffixSize + 8 \<le> usableSpace st1 p);
              sliver = p + prefixSize + suffixSize + align8 s;
              bs' = (if split then xs @ p # sliver # ys else xs @ p # ys)
          in validArena st' bs' \<and> (\<forall>b\<in>set bs'. b mod 8 = 0)
             \<and> usableSpace st' p = (if split then align8 s else usableSpace st1 p)
             \<and> s \<le> usableSpace st' p
             \<and> (p + prefixSize) mod 8 = 0
             \<and> p_allocated st' p = 1
             \<and> (split \<longrightarrow> p_allocated st' sliver = 0
                   \<and> usableSpace st' sliver = usableSpace st1 p - align8 s - prefixSize - suffixSize)
             \<and> (\<forall>q\<in>set (xs @ p # ys). q \<noteq> p \<longrightarrow>
                   p_allocated st' q = p_allocated st1 q \<and> p_suffix st' q = p_suffix st1 q)
             \<and> (\<forall>q\<in>set bs'. q \<noteq> p \<longrightarrow>
                   p_suffix st' q \<le> p + prefixSize
                   \<or> p + prefixSize + usableSpace st' p \<le> q + prefixSize)
             \<and> arenaBegin st' = arenaBegin st1 \<and> arenaEnd st' = arenaEnd st1
             \<and> growingDisabled st' = growingDisabled st1"
      by blast
    from x(4) r have res: "alloc s st1 = Some (Inr (p + prefixSize, st'))" by simp
    have inner: "\<exists>xs p ys st'. bs = xs @ p # ys \<and> fits st1 s p
           \<and> ?pick xs p ys
           \<and> alloc s st1 = Some (Inr (p + prefixSize, st'))
           \<and> (let split = (align8 s + prefixSize + suffixSize + 8 \<le> usableSpace st1 p);
                   sliver = p + prefixSize + suffixSize + align8 s;
                   bs' = (if split then xs @ p # sliver # ys else xs @ p # ys)
               in validArena st' bs' \<and> (\<forall>b\<in>set bs'. b mod 8 = 0)
                  \<and> usableSpace st' p = (if split then align8 s else usableSpace st1 p)
                  \<and> s \<le> usableSpace st' p
                  \<and> (p + prefixSize) mod 8 = 0
                  \<and> p_allocated st' p = 1
                  \<and> (split \<longrightarrow> p_allocated st' sliver = 0
                        \<and> usableSpace st' sliver
                            = usableSpace st1 p - align8 s - prefixSize - suffixSize)
                  \<and> (\<forall>q\<in>set (xs @ p # ys). q \<noteq> p \<longrightarrow>
                        p_allocated st' q = p_allocated st1 q \<and> p_suffix st' q = p_suffix st1 q)
                  \<and> (\<forall>q\<in>set bs'. q \<noteq> p \<longrightarrow>
                        p_suffix st' q \<le> p + prefixSize
                        \<or> p + prefixSize + usableSpace st' p \<le> q + prefixSize)
                  \<and> arenaBegin st' = arenaBegin st1 \<and> arenaEnd st' = arenaEnd st1
                  \<and> growingDisabled st' = growingDisabled st1)"
      apply (rule exI [of _ xs], rule exI [of _ p], rule exI [of _ ys], rule exI [of _ st'])
      using x(1,2,3) res body by blast
    show ?thesis
      apply (simp only: True if_True)
      apply (rule inner)
      done
  next
    case False
    with search have none: "alloc s st1 = Some (Inr (0, st1))" by simp
    show ?thesis
      apply (simp only: False if_False)
      apply (rule none)
      done
  qed
qed

subsection \<open>The three-way merge\<close>

lemma absorb_neighbours:
  assumes va: "validArena st (us @ L # c # n # ys)"
    and fL: "p_allocated st L = 0" and fn: "p_allocated st n = 0"
  shows "\<exists>st'. mergeTail c st = Inr (L + 16, st')
      \<and> validArena st' (us @ L # ys)
      \<and> p_allocated st' L = 1 \<and> p_suffix st' L = p_suffix st n
      \<and> (\<forall>q\<in>set us \<union> set ys. p_suffix st' q = p_suffix st q
            \<and> p_allocated st' q = p_allocated st q)
      \<and> arenaBegin st' = arenaBegin st \<and> arenaEnd st' = arenaEnd st
      \<and> growingDisabled st' = growingDisabled st \<and> bytes st' = bytes st"
proof -
  let ?bs = "us @ L # c # n # ys"
  have mL: "L \<in> set ?bs" and mc: "c \<in> set ?bs" and mn: "n \<in> set ?bs" by simp_all
  from va have "chain st (arenaBegin st) ?bs (arenaEnd st)" by (simp add: validArena_def)
  then have "distinct ?bs" by (rule chain_distinct)
  then have ne: "L \<noteq> c" "n \<noteq> c" "L \<noteq> n" by auto
  note C = validArena_mem [OF va mc] and Lm = validArena_mem [OF va mL]
  have c0: "c \<noteq> 0" and L0: "L \<noteq> 0" using C Lm by simp_all
  let ?st2 = "setFlag st c 0"
  have va2: "validArena ?st2 ?bs" by (rule setFlag_valid [OF va mc])
  have v2: "p_suffix ?st2 q = p_suffix st q"
    "p_allocated ?st2 q = (if q = c then 0 else p_allocated st q)" if "q \<in> set ?bs" for q
    using setFlag_views [OF va mc that, of 0] by simp_all
  have f2: "p_allocated ?st2 c = 0" "p_allocated ?st2 L = 0" "p_allocated ?st2 n = 0"
    using v2(2) [OF mc] v2(2) [OF mL] v2(2) [OF mn] fL fn ne by simp_all
  let ?st3 = "mergeState ?st2 L c"
  have cp: "coalescePrev ?st2 c = Inr (L, ?st3)"
    using coalescePrev_pred [OF va2] f2 by simp
  have va3: "validArena ?st3 (us @ L # n # ys)" by (rule validArena_merge [OF va2])
  note m3 = mergeState_views [OF va2] mergeState_others [OF va2]
  have n3: "p_allocated ?st3 n = 0" "p_suffix ?st3 n = p_suffix st n"
    using m3(3) f2(3) v2(1) [OF mn] by simp_all
  have gn: "getNextPrefix ?st3 L = Inr n" by (rule getNextPrefix_succ(1) [OF va3])
  have mn3: "n \<in> set (us @ L # n # ys)" by simp
  have n0: "n \<noteq> 0" using validArena_mem(1) [OF va3 mn3] by simp
  let ?st4 = "mergeState ?st3 L n"
  have cn: "coalescePrev ?st3 n = Inr (L, ?st4)"
    using coalescePrev_pred [OF va3] n3(1) m3(2) by simp
  have va4: "validArena ?st4 (us @ L # ys)" by (rule validArena_merge [OF va3])
  note m4 = mergeState_views [OF va3] mergeState_others [OF va3]
  have co: "coalesce ?st2 c = Inr (L, ?st4)"
    using c0 cp gn n0 cn by (simp add: coalesce_def)
  let ?st' = "setFlag ?st4 L 1"
  have mL4: "L \<in> set (us @ L # ys)" by simp
  have va': "validArena ?st' (us @ L # ys)" by (rule setFlag_valid [OF va4 mL4])
  have v': "p_suffix ?st' q = p_suffix ?st4 q"
    "p_allocated ?st' q = (if q = L then 1 else p_allocated ?st4 q)" if "q \<in> set (us @ L # ys)" for q
    using setFlag_views [OF va4 mL4 that, of 1] by simp_all
  have pr: "prefixToRegion L = L + 16" by (rule validArena_region(1) [OF va mL])
  have run: "mergeTail c st = Inr (L + 16, ?st')"
    using c0 L0 co pr by (simp add: mergeTail_def setAllocated_ok)
  have pL: "p_allocated ?st' L = 1" "p_suffix ?st' L = p_suffix st n"
    using v' [OF mL4] m4(1) n3(2) by simp_all
  have oth: "\<forall>q\<in>set us \<union> set ys. p_suffix ?st' q = p_suffix st q
            \<and> p_allocated ?st' q = p_allocated st q"
  proof
    fix q assume q: "q \<in> set us \<union> set ys"
    then have q4: "q \<in> set (us @ L # ys)" and q3: "q \<in> set us \<union> set (n # ys)"
      and qb: "q \<in> set ?bs" by auto
    from \<open>distinct ?bs\<close> q have qn: "q \<noteq> L" "q \<noteq> c" by auto
    have "p_suffix ?st' q = p_suffix ?st4 q" "p_allocated ?st' q = p_allocated ?st4 q"
      using v' [OF q4] qn by simp_all
    moreover have "p_suffix ?st4 q = p_suffix ?st3 q" "p_allocated ?st4 q = p_allocated ?st3 q"
      using m4(3) q by blast+
    moreover have "p_suffix ?st3 q = p_suffix ?st2 q" "p_allocated ?st3 q = p_allocated ?st2 q"
      using m3(3) q3 by blast+
    moreover have "p_suffix ?st2 q = p_suffix st q" "p_allocated ?st2 q = p_allocated st q"
      using v2 [OF qb] qn by simp_all
    ultimately show "p_suffix ?st' q = p_suffix st q \<and> p_allocated ?st' q = p_allocated st q"
      by simp
  qed
  have bd: "arenaBegin ?st' = arenaBegin st" "arenaEnd ?st' = arenaEnd st"
    "growingDisabled ?st' = growingDisabled st" "bytes ?st' = bytes st"
    by (simp_all add: setFlag_bounds mergeState_frame)
  show ?thesis
    using run va' pL oth bd by blast
qed

lemma align8_neg:
  assumes "- 24 < k" "k < 0"
  shows "s32 (align8 (u64 k)) = k + 7 - (k + 7) mod 8"
proof -
  from assms have "k \<in> {- 23, - 22, - 21, - 20, - 19, - 18, - 17, - 16, - 15, - 14, - 13, - 12,
      - 11, - 10, - 9, - 8, - 7, - 6, - 5, - 4, - 3, - 2, - 1}" by simp arith
  then show ?thesis
    by (elim insertE emptyE) (simp_all add: u64_def s32_def align8_def and_m8)
qed

lemma align8_cast:
  assumes "- 24 < k" "k < 2 ^ 31 - 8"
  shows "s32 (align8 (u64 k)) = k + 7 - (k + 7) mod 8"
proof (cases "k < 0")
  case True
  with assms show ?thesis by (simp add: align8_neg)
next
  case False
  then have k0: "0 \<le> k" by simp
  have k64: "k < 2 ^ 64" "k + 7 < 2 ^ 64" using assms by simp_all
  have a: "align8 k = k + 7 - (k + 7) mod 8" using k0 k64 by (simp add: align8_eq)
  have "k \<le> k + 7 - (k + 7) mod 8" "k + 7 - (k + 7) mod 8 < k + 8" by presburger+
  then have "s32 (k + 7 - (k + 7) mod 8) = k + 7 - (k + 7) mod 8"
    using k0 assms by (intro s32_id) auto
  then show ?thesis using k0 k64 a by (simp add: u64_id)
qed

lemma mergeBothTrimPast_unfold:
  assumes "s32 (align8 (u64 (newSize - uC - uN - prefixSize - suffixSize))) = M"
    and "align8_int (s32 (u64 (uP - M))) = A"
    and "u64 (s32 (A + 8)) = B"
    and "u64 (a + A + prefixSize + suffixSize) = S"
  shows "mergeBothTrimPast st c a uP uN uC newSize =
     bindE (if uP \<ge> B then splitBlock st a S else Inr st) (mergeTail c)"
  unfolding mergeBothTrimPast_def Let_def assms mergeTail_def ..

lemma mergeBothTrimNext_unfold:
  assumes "s32 (align8 (u64 (uC + uP))) = M"
    and "align8_int (s32 (u64 (newSize - M))) = A"
    and "u64 (s32 (A + 8)) = B"
    and "u64 (nb + A - (prefixSize + suffixSize)) = S"
  shows "mergeBothTrimNext st c nb uP uN uC newSize =
     bindE (if uN \<ge> B then splitBlock st nb S else Inr st) (mergeTail c)"
  unfolding mergeBothTrimNext_def Let_def assms mergeTail_def ..

lemma three_way_branch:
  assumes va: "validArena st (xs @ a # c # n # ys)"
    and fa: "p_allocated st a = 0" and fn: "p_allocated st n = 0"
    and sn: "usableSpace st c + usableSpace st n < newSize"
    and sp: "usableSpace st c + usableSpace st a < newSize"
    and sum: "newSize \<le> usableSpace st a + usableSpace st n + usableSpace st c"
  shows "resizeRegionExtra (c + prefixSize) newSize st =
     Some (if usableSpace st a > usableSpace st n
           then mergeBothTrimPast st c a
                  (usableSpace st a) (usableSpace st n) (usableSpace st c) newSize
           else mergeBothTrimNext st c n
                  (usableSpace st a) (usableSpace st n) (usableSpace st c) newSize)"
proof -
  let ?bs = "xs @ a # c # n # ys"
  have ma: "a \<in> set ?bs" and mc: "c \<in> set ?bs" and mn: "n \<in> set ?bs" by simp_all
  note A = validArena_mem [OF va ma] and C = validArena_mem [OF va mc] and N = validArena_mem [OF va mn]
  have ca: "c = p_suffix st a + 8"
    using getNextPrefix_succ(2) [of st xs a c "n # ys"] va by simp
  have na: "n = p_suffix st c + 8"
    using getNextPrefix_succ(2) [of st "xs @ [a]" c n ys] va by simp
  from va have sz: "arenaEnd st - arenaBegin st < 2 ^ 31" by (simp add: validArena_def)
  have tot: "usableSpace st a + usableSpace st n + usableSpace st c < 2 ^ 31"
    using A N sz ca na by (simp add: usableSpace_def)
  have old: "resizeOldSize (c + 16) st = Inr (usableSpace st c)"
    "u64 (usableSpace st c) = usableSpace st c"
    using validArena_oldSize [OF va mc] by simp_all
  have reg: "regionToPrefix (c + 16) = c" by (rule validArena_region [OF va mc])
  have gn: "getNextPrefix st c = Inr n"
    using getNextPrefix_succ(1) [of st "xs @ [a]" c n ys] va by simp
  have gp: "getPrevPrefix st c = a"
    using getPrevPrefix_pred [of st xs a c "n # ys"] va by simp
  note cu = validArena_compute(1) [OF va ma] validArena_compute(1) [OF va mc]
      validArena_compute(1) [OF va mn]
  have nz: "a \<noteq> 0" "c \<noteq> 0" "n \<noteq> 0" using A C N by simp_all
  have c1: "u64 (s32 (u64 (usableSpace st n + usableSpace st c))) = usableSpace st n + usableSpace st c"
    using A(7) C(7) N(7) tot by (simp add: u64_id s32_id)
  have c2: "u64 (s32 (u64 (usableSpace st a + usableSpace st c))) = usableSpace st a + usableSpace st c"
    using A(7) C(7) N(7) tot by (simp add: u64_id s32_id)
  have c3: "u64 (s32 (u64 (usableSpace st a + usableSpace st n + usableSpace st c)))
      = usableSpace st a + usableSpace st n + usableSpace st c"
    using A(7) C(7) N(7) tot by (simp add: u64_id s32_id)
  have lt: "usableSpace st c < newSize" using sn N(7) by simp
  show ?thesis
    using nz fa fn sn sp sum lt
    by (simp add: resizeRegionExtra_def old reg gn gp cu c1 c2 c3)
qed

subsection \<open>Rounding to multiples of 8\<close>

lemma rnd8_shift:
  assumes "(x::int) mod 8 = 0"
  shows "(y - x + 7) mod 8 = (y + 7) mod 8"
proof -
  have "(y - x + 7) mod 8 = ((y + 7) - x) mod 8" by (simp add: algebra_simps)
  also have "\<dots> = ((y + 7) mod 8 - x mod 8) mod 8" by (simp only: mod_diff_eq)
  also have "\<dots> = (y + 7) mod 8" using assms by simp
  finally show ?thesis .
qed

lemma rnd8_le: "(x::int) mod 8 = 0 \<Longrightarrow> y \<le> x \<Longrightarrow> y + 7 - (y + 7) mod 8 \<le> x"
  by presburger

lemma rnd8_gt: "(x::int) mod 8 = 0 \<Longrightarrow> x < y \<Longrightarrow> x + 8 \<le> y + 7 - (y + 7) mod 8"
  by presburger

lemma rnd8_id: "(x::int) mod 8 = 0 \<Longrightarrow> x + 7 - (x + 7) mod 8 = x"
  by presburger

lemma mod8_add: "(x::int) mod 8 = 0 \<Longrightarrow> y mod 8 = 0 \<Longrightarrow> (x + y) mod 8 = 0"
  by presburger

lemma mod8_diff: "(x::int) mod 8 = 0 \<Longrightarrow> y mod 8 = 0 \<Longrightarrow> (x - y) mod 8 = 0"
  by presburger

lemma mod8_step: "(x::int) mod 8 = 0 \<Longrightarrow> y mod 8 = 0 \<Longrightarrow> x < y \<Longrightarrow> x + 8 \<le> y"
  by presburger

subsection \<open>Freeing a block\<close>


subsection \<open>Copying and the fallback of the resize functions\<close>






section \<open>The claims\<close>

text \<open>
  C1. An allocation call works on the arena that \<^verbatim>\<open>initializeArena\<close> creates when there is
  none yet (one free block, \<open>DEFAULT_BRKSIZE - prefixSize - suffixSize\<close> usable bytes, at the
  program break) and on the given valid arena otherwise; growth is disabled, as the source
  sets it, and block addresses are multiples of 8. If no free block of that arena has \<open>s\<close>
  usable bytes, the call returns the null region and that arena unchanged. Otherwise
  \<^verbatim>\<open>firstFitAllocRegion(s)\<close> takes the first fitting block \<open>p\<close> in address order, and
  \<^verbatim>\<open>bestFitAllocRegion(s)\<close> the first among the fitting blocks of smallest usable space; the
  call returns the region \<open>p + prefixSize\<close>, a multiple of 8; afterwards the block is
  allocated with at least \<open>s\<close> usable bytes, every other block keeps its flag and its
  extent, the region is disjoint from the region of every other block, and the arena is
  again valid with block addresses that are multiples of 8. The block is split, a free
  sliver carved from its tail and the block left with exactly \<open>align8 s\<close> usable bytes,
  exactly when its usable space was at least \<open>align8 s + prefixSize + suffixSize + 8\<close>.
\<close>

theorem alloc_region_correct:
  assumes ar: "validArena st bs \<or> fresh st \<and> bs = [brk st]"
    and gd: "growingDisabled st \<noteq> 0" and al: "\<forall>b\<in>set bs. b mod 8 = 0" and s0: "0 \<le> s"
    and f: "(alloc, first) = (firstFitAllocRegion, True) \<or> (alloc, first) = (bestFitAllocRegion, False)"
  shows "\<exists>st1. (if arenaBegin st = 0
                then initializeArena st = Inr st1
                     \<and> arenaBegin st1 = brk st \<and> arenaEnd st1 = brk st + DEFAULT_BRKSIZE
                     \<and> p_allocated st1 (brk st) = 0
                     \<and> usableSpace st1 (brk st) = DEFAULT_BRKSIZE - prefixSize - suffixSize
                else st1 = st)
      \<and> validArena st1 bs
      \<and> (if \<exists>q\<in>set bs. fits st1 s q
         then \<exists>xs p ys st'. bs = xs @ p # ys \<and> fits st1 s p
           \<and> (if first then \<forall>c\<in>set xs. \<not> fits st1 s c
               else (\<forall>c\<in>set xs. fits st1 s c \<longrightarrow> usableSpace st1 p < usableSpace st1 c)
                  \<and> (\<forall>c\<in>set ys. fits st1 s c \<longrightarrow> usableSpace st1 p \<le> usableSpace st1 c))
           \<and> alloc s st = Some (Inr (p + prefixSize, st'))
           \<and> (let split = (align8 s + prefixSize + suffixSize + 8 \<le> usableSpace st1 p);
                   sliver = p + prefixSize + suffixSize + align8 s;
                   bs' = (if split then xs @ p # sliver # ys else xs @ p # ys)
               in validArena st' bs' \<and> (\<forall>b\<in>set bs'. b mod 8 = 0)
                  \<and> usableSpace st' p = (if split then align8 s else usableSpace st1 p)
                  \<and> s \<le> usableSpace st' p
                  \<and> (p + prefixSize) mod 8 = 0
                  \<and> p_allocated st' p = 1
                  \<and> (split \<longrightarrow> p_allocated st' sliver = 0
                        \<and> usableSpace st' sliver
                            = usableSpace st1 p - align8 s - prefixSize - suffixSize)
                  \<and> (\<forall>q\<in>set (xs @ p # ys). q \<noteq> p \<longrightarrow>
                        p_allocated st' q = p_allocated st1 q \<and> p_suffix st' q = p_suffix st1 q)
                  \<and> (\<forall>q\<in>set bs'. q \<noteq> p \<longrightarrow>
                        p_suffix st' q \<le> p + prefixSize
                        \<or> p + prefixSize + usableSpace st' p \<le> q + prefixSize)
                  \<and> arenaBegin st' = arenaBegin st1 \<and> arenaEnd st' = arenaEnd st1
                  \<and> growingDisabled st' = growingDisabled st1)
         else alloc s st = Some (Inr (0, st1)))"
proof -
  have "\<exists>st1. (if arenaBegin st = 0
                then initializeArena st = Inr st1
                     \<and> arenaBegin st1 = brk st \<and> arenaEnd st1 = brk st + DEFAULT_BRKSIZE
                     \<and> p_allocated st1 (brk st) = 0
                     \<and> usableSpace st1 (brk st) = DEFAULT_BRKSIZE - prefixSize - suffixSize
                else st1 = st)
      \<and> validArena st1 bs \<and> growingDisabled st1 \<noteq> 0
      \<and> (if arenaBegin st = 0 then initializeArena st else Inr st) = Inr st1"
  proof (rule disjE [OF ar])
    assume va: "validArena st bs"
    then have "arenaBegin st \<noteq> 0" by (simp add: validArena_def)
    with va gd show ?thesis by simp
  next
    assume fr: "fresh st \<and> bs = [brk st]"
    then have z: "arenaBegin st = 0" by (simp add: fresh_def)
    from fr initializeArena_fresh [of st] obtain st1 where
      "initializeArena st = Inr st1" "validArena st1 [brk st]"
      "arenaBegin st1 = brk st" "arenaEnd st1 = brk st + DEFAULT_BRKSIZE"
      "p_allocated st1 (brk st) = 0" "usableSpace st1 (brk st) = DEFAULT_BRKSIZE - 24"
      "growingDisabled st1 = growingDisabled st" by blast
    with z fr gd show ?thesis by (intro exI [of _ st1]) simp
  qed
  then obtain st1 where init: "if arenaBegin st = 0
                then initializeArena st = Inr st1
                     \<and> arenaBegin st1 = brk st \<and> arenaEnd st1 = brk st + DEFAULT_BRKSIZE
                     \<and> p_allocated st1 (brk st) = 0
                     \<and> usableSpace st1 (brk st) = DEFAULT_BRKSIZE - prefixSize - suffixSize
                else st1 = st"
    and va: "validArena st1 bs" and gd1: "growingDisabled st1 \<noteq> 0"
    and i: "(if arenaBegin st = 0 then initializeArena st else Inr st) = Inr st1"
    by blast
  from va have nz: "arenaBegin st1 \<noteq> 0" by (simp add: validArena_def)
  have e: "alloc s st = alloc s st1"
    using f i nz by (auto simp: firstFitAllocRegion_def bestFitAllocRegion_def)
  note r = alloc_valid [OF va gd1 al s0 f, folded e]
  show ?thesis
    apply (rule exI [of _ st1])
    apply (intro conjI)
      apply (rule init)
     apply (rule va)
    apply (rule r)
    done
qed

theorem alloc_region_correct_witness:
  "fresh st0 \<and> growingDisabled st0 \<noteq> 0 \<and> brk st0 = 4096
   \<and> (\<exists>st'. firstFitAllocRegion 8 st0 = Some (Inr (4112, st'))
         \<and> validArena st' [4096, 4128]
         \<and> usableSpace st' 4096 = 8 \<and> p_allocated st' 4096 = 1
         \<and> usableSpace st' 4128 = 1048520 \<and> p_allocated st' 4128 = 0)
   \<and> validArena arenaT blocksT \<and> growingDisabled arenaT \<noteq> 0
   \<and> map (\<lambda>b. b mod 8) blocksT = [0, 0, 0, 0, 0]
   \<and> (\<exists>st'. bestFitAllocRegion 16000 arenaT = Some (Inr (60920, st'))
         \<and> validArena st' [4096, 60624, 60904, 76928, 86328, 86608]
         \<and> usableSpace st' 60904 = 16000 \<and> p_allocated st' 60904 = 1
         \<and> usableSpace st' 76928 = 9376 \<and> p_allocated st' 76928 = 0)
   \<and> regionOf (firstFitAllocRegion 16000 arenaT) = Some 4112
   \<and> regionOf (firstFitAllocRegion 2000000 st0) = Some 0"
proof -
  have fr: "fresh st0" by (simp add: fresh_def st0_def DEFAULT_BRKSIZE_def)
  have gd0: "growingDisabled st0 \<noteq> 0" and b0: "brk st0 = 4096" "arenaBegin st0 = 0"
    by (simp_all add: st0_def)
  have al0: "\<forall>b\<in>set [brk st0]. b mod 8 = 0" by (simp add: b0)
  have s8: "(0::int) \<le> 8" and s16: "(0::int) \<le> 16000" by simp_all
  have a8: "align8 8 = 8" "align8 16000 = 16000" by (simp_all add: align8_eq)
  have e: "regionOf (firstFitAllocRegion 8 st0) = Some 4112"
    "regionOf (bestFitAllocRegion 16000 arenaT) = Some 60920"
    "regionOf (firstFitAllocRegion 16000 arenaT) = Some 4112"
    "regionOf (firstFitAllocRegion 2000000 st0) = Some 0"
    by code_simp+
  have A: "fresh st0 \<and> [brk st0] = [brk st0]" using fr by simp
  have T1: "(\<exists>st1. (if arenaBegin st0 = 0
                then initializeArena st0 = Inr st1
                     \<and> arenaBegin st1 = brk st0 \<and> arenaEnd st1 = brk st0 + DEFAULT_BRKSIZE
                     \<and> p_allocated st1 (brk st0) = 0
                     \<and> usableSpace st1 (brk st0) = DEFAULT_BRKSIZE - prefixSize - suffixSize
                else st1 = st0)
      \<and> validArena st1 [brk st0]
      \<and> (if \<exists>q\<in>set [brk st0]. fits st1 8 q
         then \<exists>xs p ys st'. [brk st0] = xs @ p # ys \<and> fits st1 8 p
           \<and> (if True then \<forall>c\<in>set xs. \<not> fits st1 8 c
               else (\<forall>c\<in>set xs. fits st1 8 c \<longrightarrow> usableSpace st1 p < usableSpace st1 c)
                  \<and> (\<forall>c\<in>set ys. fits st1 8 c \<longrightarrow> usableSpace st1 p \<le> usableSpace st1 c))
           \<and> firstFitAllocRegion 8 st0 = Some (Inr (p + prefixSize, st'))
           \<and> (let split = (align8 8 + prefixSize + suffixSize + 8 \<le> usableSpace st1 p);
                   sliver = p + prefixSize + suffixSize + align8 8;
                   bs' = (if split then xs @ p # sliver # ys else xs @ p # ys)
               in validArena st' bs' \<and> (\<forall>b\<in>set bs'. b mod 8 = 0)
                  \<and> usableSpace st' p = (if split then align8 8 else usableSpace st1 p)
                  \<and> 8 \<le> usableSpace st' p
                  \<and> (p + prefixSize) mod 8 = 0
                  \<and> p_allocated st' p = 1
                  \<and> (split \<longrightarrow> p_allocated st' sliver = 0
                        \<and> usableSpace st' sliver
                            = usableSpace st1 p - align8 8 - prefixSize - suffixSize)
                  \<and> (\<forall>q\<in>set (xs @ p # ys). q \<noteq> p \<longrightarrow>
                        p_allocated st' q = p_allocated st1 q \<and> p_suffix st' q = p_suffix st1 q)
                  \<and> (\<forall>q\<in>set bs'. q \<noteq> p \<longrightarrow>
                        p_suffix st' q \<le> p + prefixSize
                        \<or> p + prefixSize + usableSpace st' p \<le> q + prefixSize)
                  \<and> arenaBegin st' = arenaBegin st1 \<and> arenaEnd st' = arenaEnd st1
                  \<and> growingDisabled st' = growingDisabled st1)
         else firstFitAllocRegion 8 st0 = Some (Inr (0, st1))))"
    by (rule alloc_region_correct [OF disjI2 [OF A] gd0 al0 s8 disjI1 [OF refl]])
  then obtain st1 where i: "initializeArena st0 = Inr st1" "p_allocated st1 4096 = 0"
      "usableSpace st1 4096 = 1048552"
    and c: "if \<exists>q\<in>set [brk st0]. fits st1 8 q
         then \<exists>xs p ys st'. [brk st0] = xs @ p # ys \<and> fits st1 8 p
           \<and> (if True then \<forall>c\<in>set xs. \<not> fits st1 8 c
               else (\<forall>c\<in>set xs. fits st1 8 c \<longrightarrow> usableSpace st1 p < usableSpace st1 c)
                  \<and> (\<forall>c\<in>set ys. fits st1 8 c \<longrightarrow> usableSpace st1 p \<le> usableSpace st1 c))
           \<and> firstFitAllocRegion 8 st0 = Some (Inr (p + prefixSize, st'))
           \<and> (let split = (align8 8 + prefixSize + suffixSize + 8 \<le> usableSpace st1 p);
                   sliver = p + prefixSize + suffixSize + align8 8;
                   bs' = (if split then xs @ p # sliver # ys else xs @ p # ys)
               in validArena st' bs' \<and> (\<forall>b\<in>set bs'. b mod 8 = 0)
                  \<and> usableSpace st' p = (if split then align8 8 else usableSpace st1 p)
                  \<and> 8 \<le> usableSpace st' p
                  \<and> (p + prefixSize) mod 8 = 0
                  \<and> p_allocated st' p = 1
                  \<and> (split \<longrightarrow> p_allocated st' sliver = 0
                        \<and> usableSpace st' sliver
                            = usableSpace st1 p - align8 8 - prefixSize - suffixSize)
                  \<and> (\<forall>q\<in>set (xs @ p # ys). q \<noteq> p \<longrightarrow>
                        p_allocated st' q = p_allocated st1 q \<and> p_suffix st' q = p_suffix st1 q)
                  \<and> (\<forall>q\<in>set bs'. q \<noteq> p \<longrightarrow>
                        p_suffix st' q \<le> p + prefixSize
                        \<or> p + prefixSize + usableSpace st' p \<le> q + prefixSize)
                  \<and> arenaBegin st' = arenaBegin st1 \<and> arenaEnd st' = arenaEnd st1
                  \<and> growingDisabled st' = growingDisabled st1)
         else firstFitAllocRegion 8 st0 = Some (Inr (0, st1))"
    unfolding b0 DEFAULT_BRKSIZE_def prefixSize_eq suffixSize_eq by auto
  have fit: "\<exists>q\<in>set [brk st0]. fits st1 8 q" using i by (simp add: fits_def b0)
  from c [unfolded if_P [OF fit]] obtain xs p ys st' where x: "[brk st0] = xs @ p # ys"
    "firstFitAllocRegion 8 st0 = Some (Inr (p + prefixSize, st'))"
    and L: "let split = (align8 8 + prefixSize + suffixSize + 8 \<le> usableSpace st1 p);
                   sliver = p + prefixSize + suffixSize + align8 8;
                   bs' = (if split then xs @ p # sliver # ys else xs @ p # ys)
               in validArena st' bs' \<and> (\<forall>b\<in>set bs'. b mod 8 = 0)
                  \<and> usableSpace st' p = (if split then align8 8 else usableSpace st1 p)
                  \<and> 8 \<le> usableSpace st' p
                  \<and> (p + prefixSize) mod 8 = 0
                  \<and> p_allocated st' p = 1
                  \<and> (split \<longrightarrow> p_allocated st' sliver = 0
                        \<and> usableSpace st' sliver
                            = usableSpace st1 p - align8 8 - prefixSize - suffixSize)
                  \<and> (\<forall>q\<in>set (xs @ p # ys). q \<noteq> p \<longrightarrow>
                        p_allocated st' q = p_allocated st1 q \<and> p_suffix st' q = p_suffix st1 q)
                  \<and> (\<forall>q\<in>set bs'. q \<noteq> p \<longrightarrow>
                        p_suffix st' q \<le> p + prefixSize
                        \<or> p + prefixSize + usableSpace st' p \<le> q + prefixSize)
                  \<and> arenaBegin st' = arenaBegin st1 \<and> arenaEnd st' = arenaEnd st1
                  \<and> growingDisabled st' = growingDisabled st1"
    by blast
  from x(1) have xp: "xs = []" "p = 4096" "ys = []"
    by (simp_all add: b0 Cons_eq_append_conv)
  from L have r1: "validArena st' [4096, 4128]
         \<and> usableSpace st' 4096 = 8 \<and> p_allocated st' 4096 = 1
         \<and> usableSpace st' 4128 = 1048520 \<and> p_allocated st' 4128 = 0"
    unfolding xp by (simp add: Let_def a8 i)
  from x(2) have "firstFitAllocRegion 8 st0 = Some (Inr (4112, st'))"
    unfolding xp by simp
  with r1 have R1: "\<exists>st'. firstFitAllocRegion 8 st0 = Some (Inr (4112, st'))
         \<and> validArena st' [4096, 4128]
         \<and> usableSpace st' 4096 = 8 \<and> p_allocated st' 4096 = 1
         \<and> usableSpace st' 4128 = 1048520 \<and> p_allocated st' 4128 = 0" by blast
  have gdT: "growingDisabled arenaT \<noteq> 0" by (simp add: arenaT_def mkArena_def)
  have alT: "\<forall>b\<in>set blocksT. b mod 8 = 0" by (simp add: blocksT_def)
  have uT: "usableSpace arenaT 60904 = 25400" "p_allocated arenaT 60904 = 0"
    by (simp_all add: arenaT_def mkArena_def usableSpace_def)
  have T2: "(\<exists>st1. (if arenaBegin arenaT = 0
                then initializeArena arenaT = Inr st1
                     \<and> arenaBegin st1 = brk arenaT \<and> arenaEnd st1 = brk arenaT + DEFAULT_BRKSIZE
                     \<and> p_allocated st1 (brk arenaT) = 0
                     \<and> usableSpace st1 (brk arenaT) = DEFAULT_BRKSIZE - prefixSize - suffixSize
                else st1 = arenaT)
      \<and> validArena st1 blocksT
      \<and> (if \<exists>q\<in>set blocksT. fits st1 16000 q
         then \<exists>xs p ys st'. blocksT = xs @ p # ys \<and> fits st1 16000 p
           \<and> (if False then \<forall>c\<in>set xs. \<not> fits st1 16000 c
               else (\<forall>c\<in>set xs. fits st1 16000 c \<longrightarrow> usableSpace st1 p < usableSpace st1 c)
                  \<and> (\<forall>c\<in>set ys. fits st1 16000 c \<longrightarrow> usableSpace st1 p \<le> usableSpace st1 c))
           \<and> bestFitAllocRegion 16000 arenaT = Some (Inr (p + prefixSize, st'))
           \<and> (let split = (align8 16000 + prefixSize + suffixSize + 8 \<le> usableSpace st1 p);
                   sliver = p + prefixSize + suffixSize + align8 16000;
                   bs' = (if split then xs @ p # sliver # ys else xs @ p # ys)
               in validArena st' bs' \<and> (\<forall>b\<in>set bs'. b mod 8 = 0)
                  \<and> usableSpace st' p = (if split then align8 16000 else usableSpace st1 p)
                  \<and> 16000 \<le> usableSpace st' p
                  \<and> (p + prefixSize) mod 8 = 0
                  \<and> p_allocated st' p = 1
                  \<and> (split \<longrightarrow> p_allocated st' sliver = 0
                        \<and> usableSpace st' sliver
                            = usableSpace st1 p - align8 16000 - prefixSize - suffixSize)
                  \<and> (\<forall>q\<in>set (xs @ p # ys). q \<noteq> p \<longrightarrow>
                        p_allocated st' q = p_allocated st1 q \<and> p_suffix st' q = p_suffix st1 q)
                  \<and> (\<forall>q\<in>set bs'. q \<noteq> p \<longrightarrow>
                        p_suffix st' q \<le> p + prefixSize
                        \<or> p + prefixSize + usableSpace st' p \<le> q + prefixSize)
                  \<and> arenaBegin st' = arenaBegin st1 \<and> arenaEnd st' = arenaEnd st1
                  \<and> growingDisabled st' = growingDisabled st1)
         else bestFitAllocRegion 16000 arenaT = Some (Inr (0, st1))))"
    by (rule alloc_region_correct [OF disjI1 [OF validArena_arenaT] gdT alT s16 disjI2 [OF refl]])
  have nz: "arenaBegin arenaT \<noteq> 0" by (simp add: arenaT_def mkArena_def)
  have fitT: "\<exists>q\<in>set blocksT. fits arenaT 16000 q"
    using uT by (simp add: fits_def blocksT_def)
  from T2 nz have C2: "(if \<exists>q\<in>set blocksT. fits arenaT 16000 q
         then \<exists>xs p ys st'. blocksT = xs @ p # ys \<and> fits arenaT 16000 p
           \<and> (if False then \<forall>c\<in>set xs. \<not> fits arenaT 16000 c
               else (\<forall>c\<in>set xs. fits arenaT 16000 c \<longrightarrow> usableSpace arenaT p < usableSpace arenaT c)
                  \<and> (\<forall>c\<in>set ys. fits arenaT 16000 c \<longrightarrow> usableSpace arenaT p \<le> usableSpace arenaT c))
           \<and> bestFitAllocRegion 16000 arenaT = Some (Inr (p + prefixSize, st'))
           \<and> (let split = (align8 16000 + prefixSize + suffixSize + 8 \<le> usableSpace arenaT p);
                   sliver = p + prefixSize + suffixSize + align8 16000;
                   bs' = (if split then xs @ p # sliver # ys else xs @ p # ys)
               in validArena st' bs' \<and> (\<forall>b\<in>set bs'. b mod 8 = 0)
                  \<and> usableSpace st' p = (if split then align8 16000 else usableSpace arenaT p)
                  \<and> 16000 \<le> usableSpace st' p
                  \<and> (p + prefixSize) mod 8 = 0
                  \<and> p_allocated st' p = 1
                  \<and> (split \<longrightarrow> p_allocated st' sliver = 0
                        \<and> usableSpace st' sliver
                            = usableSpace arenaT p - align8 16000 - prefixSize - suffixSize)
                  \<and> (\<forall>q\<in>set (xs @ p # ys). q \<noteq> p \<longrightarrow>
                        p_allocated st' q = p_allocated arenaT q \<and> p_suffix st' q = p_suffix arenaT q)
                  \<and> (\<forall>q\<in>set bs'. q \<noteq> p \<longrightarrow>
                        p_suffix st' q \<le> p + prefixSize
                        \<or> p + prefixSize + usableSpace st' p \<le> q + prefixSize)
                  \<and> arenaBegin st' = arenaBegin arenaT \<and> arenaEnd st' = arenaEnd arenaT
                  \<and> growingDisabled st' = growingDisabled arenaT)
         else bestFitAllocRegion 16000 arenaT = Some (Inr (0, arenaT)))"
    by (simp only: if_False) (erule exE, elim conjE, hypsubst, assumption)
  from C2 [unfolded if_P [OF fitT]] obtain xs p ys st' where x: "blocksT = xs @ p # ys"
    "bestFitAllocRegion 16000 arenaT = Some (Inr (p + prefixSize, st'))"
    and L: "let split = (align8 16000 + prefixSize + suffixSize + 8 \<le> usableSpace arenaT p);
                   sliver = p + prefixSize + suffixSize + align8 16000;
                   bs' = (if split then xs @ p # sliver # ys else xs @ p # ys)
               in validArena st' bs' \<and> (\<forall>b\<in>set bs'. b mod 8 = 0)
                  \<and> usableSpace st' p = (if split then align8 16000 else usableSpace arenaT p)
                  \<and> 16000 \<le> usableSpace st' p
                  \<and> (p + prefixSize) mod 8 = 0
                  \<and> p_allocated st' p = 1
                  \<and> (split \<longrightarrow> p_allocated st' sliver = 0
                        \<and> usableSpace st' sliver
                            = usableSpace arenaT p - align8 16000 - prefixSize - suffixSize)
                  \<and> (\<forall>q\<in>set (xs @ p # ys). q \<noteq> p \<longrightarrow>
                        p_allocated st' q = p_allocated arenaT q \<and> p_suffix st' q = p_suffix arenaT q)
                  \<and> (\<forall>q\<in>set bs'. q \<noteq> p \<longrightarrow>
                        p_suffix st' q \<le> p + prefixSize
                        \<or> p + prefixSize + usableSpace st' p \<le> q + prefixSize)
                  \<and> arenaBegin st' = arenaBegin arenaT \<and> arenaEnd st' = arenaEnd arenaT
                  \<and> growingDisabled st' = growingDisabled arenaT"
    by blast
  from x(2) e(2) have pe: "p = 60904" by (simp add: regionOf_def)
  from x(1) have xy: "xs = [4096, 60624]" "ys = [86328, 86608]"
    unfolding pe blocksT_def by (auto simp: Cons_eq_append_conv)
  from L have r2: "validArena st' [4096, 60624, 60904, 76928, 86328, 86608]
         \<and> usableSpace st' 60904 = 16000 \<and> p_allocated st' 60904 = 1
         \<and> usableSpace st' 76928 = 9376 \<and> p_allocated st' 76928 = 0"
    unfolding pe xy by (simp add: Let_def a8 uT)
  from x(2) have "bestFitAllocRegion 16000 arenaT = Some (Inr (60920, st'))"
    unfolding pe by simp
  with r2 have R2: "\<exists>st'. bestFitAllocRegion 16000 arenaT = Some (Inr (60920, st'))
         \<and> validArena st' [4096, 60624, 60904, 76928, 86328, 86608]
         \<and> usableSpace st' 60904 = 16000 \<and> p_allocated st' 60904 = 1
         \<and> usableSpace st' 76928 = 9376 \<and> p_allocated st' 76928 = 0" by blast
  have "map (\<lambda>b. b mod 8) blocksT = [0, 0, 0, 0, 0]" by (simp add: blocksT_def)
  with fr gd0 b0(1) R1 validArena_arenaT gdT R2 e(3,4) show ?thesis by blast
qed


text \<open>
  C2. In a valid arena \<^verbatim>\<open>findBestFit(s)\<close> returns, when some free block has at least \<open>s\<close>
  usable bytes, such a block \<open>q\<close> whose usable space is smaller than that of every fitting
  block before it in scan order and no larger than that of every fitting block after it;
  when no block fits, it returns what \<^verbatim>\<open>growArena(s)\<close> returns. And the loop returns a free
  block whose usable space is exactly \<open>s\<close> as soon as it reaches it, whatever the best
  block so far. The witness is the arena with free blocks of 56504, 254, 25400 and 254
  bytes and the request 16000: the block of 25400 bytes, at 60902, is returned.
\<close>

theorem findBestFit_smallest:
  assumes "validArena st bs"
  shows "(if \<exists>q\<in>set bs. fits st s q
          then \<exists>xs q ys. bs = xs @ q # ys \<and> fits st s q
                 \<and> (\<forall>c\<in>set xs. fits st s c \<longrightarrow> usableSpace st q < usableSpace st c)
                 \<and> (\<forall>c\<in>set ys. fits st s c \<longrightarrow> usableSpace st q \<le> usableSpace st c)
                 \<and> findBestFit s st = Some (Inr (q, st))
          else findBestFit s st = Some (growArena s st))
       \<and> (\<forall>p bf mu. p \<in> set bs \<and> p_allocated st p = 0 \<and> usableSpace st p = s \<longrightarrow>
             findBestFit_loop st s p bf mu = Some (Inr (p, st)))"
proof (intro conjI allI impI)
  let ?F = "filter (fits st s) bs"
  let ?u = "usableSpace st"
  have eq: "findBestFit s st = Some (pickBest st s ?F)"
    using findBestFit_spec [OF assms] by (simp add: bestFitSpec_def)
  show "if \<exists>q\<in>set bs. fits st s q
          then \<exists>xs q ys. bs = xs @ q # ys \<and> fits st s q
                 \<and> (\<forall>c\<in>set xs. fits st s c \<longrightarrow> usableSpace st q < usableSpace st c)
                 \<and> (\<forall>c\<in>set ys. fits st s c \<longrightarrow> usableSpace st q \<le> usableSpace st c)
                 \<and> findBestFit s st = Some (Inr (q, st))
          else findBestFit s st = Some (growArena s st)"
  proof (cases "?F = []")
    case True
    then have "\<not> (\<exists>q\<in>set bs. fits st s q)" by (auto simp: filter_empty_conv)
    with True eq show ?thesis by (simp add: pickBest_def)
  next
    case False
    then have ex: "\<exists>q\<in>set bs. fits st s q" by (auto simp: filter_empty_conv)
    let ?q = "arg_min_list ?u ?F"
    from arg_min_list_decomp [OF False, of ?u] obtain A B where AB: "?F = A @ ?q # B"
      "\<forall>a\<in>set A. ?u ?q < ?u a" "\<forall>b\<in>set B. ?u ?q \<le> ?u b" by blast
    from filter_decomp [OF AB(1)] obtain xs ys where
      xy: "bs = xs @ ?q # ys" "filter (fits st s) xs = A" "filter (fits st s) ys = B" "fits st s ?q"
      by blast
    have 1: "\<forall>c\<in>set xs. fits st s c \<longrightarrow> ?u ?q < ?u c"
      using AB(2) xy(2) by auto
    have 2: "\<forall>c\<in>set ys. fits st s c \<longrightarrow> ?u ?q \<le> ?u c"
      using AB(3) xy(3) by auto
    have "findBestFit s st = Some (Inr (?q, st))"
      using eq False by (simp add: pickBest_def)
    with xy(1,4) 1 2 have "\<exists>xs q ys. bs = xs @ q # ys \<and> fits st s q
                 \<and> (\<forall>c\<in>set xs. fits st s c \<longrightarrow> usableSpace st q < usableSpace st c)
                 \<and> (\<forall>c\<in>set ys. fits st s c \<longrightarrow> usableSpace st q \<le> usableSpace st c)
                 \<and> findBestFit s st = Some (Inr (q, st))" by blast
    with ex show ?thesis by simp
  qed
next
  fix p bf mu
  assume h: "p \<in> set bs \<and> p_allocated st p = 0 \<and> usableSpace st p = s"
  then have mem: "p \<in> set bs" by simp
  note m = validArena_mem [OF assms mem]
  have cast: "s32 (usableSpace st p) = usableSpace st p" "u64 (usableSpace st p) = usableSpace st p"
    using m by (simp_all add: s32_id u64_id)
  have gn: "getNextPrefix st p =
    Inr (if p_suffix st p + 8 < arenaEnd st then p_suffix st p + 8 else 0)"
    by (simp add: getNextPrefix_def validArena_compute [OF assms mem])
  have pos: "p \<noteq> 0" using m by simp
  from h have fr: "p_allocated st p = 0" by simp
  show "findBestFit_loop st s p bf mu = Some (Inr (p, st))"
    using h by (simp add: findBestFit_loop_free [OF pos fr validArena_compute(1) [OF assms mem] cast gn])
qed

theorem findBestFit_smallest_witness:
  "validArena arenaB blocksB
   \<and> map (usableSpace arenaB) blocksB = [56504, 254, 25400, 254]
   \<and> map (p_allocated arenaB) blocksB = [0, 0, 0, 0]
   \<and> findBestFit 16000 arenaB = Some (Inr (60902, arenaB))
   \<and> usableSpace arenaB 60902 = 25400
   \<and> findBestFit_loop arenaB 254 60624 4096 56504 = Some (Inr (60624, arenaB))"
proof -
  have va: "validArena arenaB blocksB"
    by (simp add: validArena_def arenaB_def blocksB_def mkArena_def)
  have fit: "\<exists>q\<in>set blocksB. fits arenaB 16000 q"
    by (simp add: fits_def arenaB_def blocksB_def mkArena_def usableSpace_def)
  have us: "map (usableSpace arenaB) blocksB = [56504, 254, 25400, 254]"
    "map (p_allocated arenaB) blocksB = [0, 0, 0, 0]"
    by (simp_all add: arenaB_def blocksB_def mkArena_def usableSpace_def)
  from findBestFit_smallest [OF va, of 16000] fit obtain xs q ys where
    q: "blocksB = xs @ q # ys" "fits arenaB 16000 q"
    "\<forall>c\<in>set xs. fits arenaB 16000 c \<longrightarrow> usableSpace arenaB q < usableSpace arenaB c"
    "\<forall>c\<in>set ys. fits arenaB 16000 c \<longrightarrow> usableSpace arenaB q \<le> usableSpace arenaB c"
    "findBestFit 16000 arenaB = Some (Inr (q, arenaB))"
    by auto
  have "q \<in> set blocksB" by (subst q(1)) simp
  then have "q = 4096 \<or> q = 60624 \<or> q = 60902 \<or> q = 86326"
    by (simp add: blocksB_def)
  moreover have "q \<noteq> 60624" "q \<noteq> 86326"
    using q(2) by (auto simp: fits_def arenaB_def mkArena_def usableSpace_def)
  moreover have "q \<noteq> 4096"
  proof
    assume e: "q = 4096"
    have "[4096, 60624, 60902, 86326] = xs @ 4096 # ys"
      using q(1) unfolding e blocksB_def .
    then have "60902 \<in> set ys"
      by (auto simp: Cons_eq_append_conv)
    moreover have "fits arenaB 16000 60902"
      by (simp add: fits_def arenaB_def mkArena_def usableSpace_def)
    ultimately have "usableSpace arenaB 4096 \<le> usableSpace arenaB 60902"
      using q(4) e by blast
    then show False by (simp add: arenaB_def mkArena_def usableSpace_def)
  qed
  ultimately have "q = 60902" by blast
  with q(5) have r: "findBestFit 16000 arenaB = Some (Inr (60902, arenaB))" by simp
  from findBestFit_smallest [OF va, of 254] have
    "findBestFit_loop arenaB 254 60624 4096 56504 = Some (Inr (60624, arenaB))"
    by (simp add: arenaB_def blocksB_def mkArena_def usableSpace_def)
  with va us r show ?thesis
    by (simp add: arenaB_def mkArena_def usableSpace_def)
qed





text \<open>
  C4, at a concrete input. In a fresh arena, \<^verbatim>\<open>firstFitAllocRegion(8)\<close> returns the region 4112
  of a block of 8 usable bytes, followed by the free block at 4128. \<^verbatim>\<open>resizeRegion(4112, 9)\<close>
  then takes 8 bytes from the successor: its test \<^verbatim>\<open>availSize >= aSize + 8\<close> (line 354, and
  the same at line 407 of \<^verbatim>\<open>resizeRegionExtra\<close>) leaves out the prefix and the suffix that the
  test of the allocation functions includes, and the split calls
  \<^verbatim>\<open>makeFreeBlock(nextBlock, 8)\<close>: a block of 8 bytes, less than \<open>prefixSize + suffixSize\<close>,
  whose suffix record lies on its own prefix record.
\<close>

theorem resize_undersized_block:
  "regionOf (firstFitAllocRegion 8 st0) = Some 4112
   \<and> usableAfter (firstFitAllocRegion 8 st0) 4096 = Some 8
   \<and> usableAfter (firstFitAllocRegion 8 st0) 4128 = Some 1048520
   \<and> allocatedAfter (firstFitAllocRegion 8 st0) 4128 = Some 0
   \<and> errorOf (resizeRegion 4112 9 (resultState (firstFitAllocRegion 8 st0))) = Some InvalidBlockSize
   \<and> errorOf (resizeRegionExtra 4112 9 (resultState (firstFitAllocRegion 8 st0))) = Some InvalidBlockSize
   \<and> errorOf (Some (makeFreeBlock (resultState (firstFitAllocRegion 8 st0)) 4128 8))
        = Some InvalidBlockSize"
  by code_simp


text \<open>
  C5. For each of the three resize functions, when the usable space of the region's
  block already covers \<open>newSize\<close>, the call returns the same region and the same state:
  bounds, block records and payload bytes are all unchanged. The usable space is below
  \<open>2 ^ 31\<close>, as in every arena of the source, so that the cast to \<^verbatim>\<open>int\<close> keeps it.
\<close>

theorem resize_fast_path:
  assumes "r \<noteq> 0" and "computeUsableSpace st (regionToPrefix r) = Inr u" and "u < 2 ^ 31"
    and "newSize \<le> u"
    and "f = oldResizeRegion \<or> f = resizeRegion \<or> f = resizeRegionExtra"
  shows "f r newSize st = Some (Inr (r, st))"
proof -
  from assms(1,2) have "0 \<le> u" "u < 2 ^ 64"
    by (auto simp: computeUsableSpace_def u64_def split: if_splits)
  with assms(3) have cast: "s32 u = u" "u64 u = u"
    by (simp_all add: s32_id u64_id)
  have old: "resizeOldSize r st = Inr u"
    using assms(1,2) cast by (simp add: resizeOldSize_def)
  from assms(5) show ?thesis
    using old cast assms(4)
    by (auto simp: oldResizeRegion_def resizeRegion_def resizeRegionExtra_def)
qed

theorem resize_fast_path_witness:
  "(60640::int) \<noteq> 0 \<and> computeUsableSpace arenaT (regionToPrefix 60640) = Inr 256
   \<and> (256::int) < 2 ^ 31 \<and> (100::int) \<le> 256
   \<and> oldResizeRegion 60640 100 arenaT = Some (Inr (60640, arenaT))
   \<and> resizeRegion 60640 100 arenaT = Some (Inr (60640, arenaT))
   \<and> resizeRegionExtra 60640 100 arenaT = Some (Inr (60640, arenaT))"
proof -
  have h: "computeUsableSpace arenaT (regionToPrefix 60640) = Inr 256"
    by (simp add: arenaT_def mkArena_def computeUsableSpace_def regionToPrefix_def u64_def)
  show ?thesis
    using h resize_fast_path [OF _ h, of 100 oldResizeRegion]
      resize_fast_path [OF _ h, of 100 resizeRegion]
      resize_fast_path [OF _ h, of 100 resizeRegionExtra]
    by simp
qed


text \<open>
  C6. In a valid arena, for a block \<open>c\<close> of 256 usable bytes between a free predecessor
  \<open>a\<close> of 56504 bytes and a free successor \<open>n\<close> of 25400 bytes, \<^verbatim>\<open>resizeRegionExtra\<close> to
  58000 returns the region of a block that starts 24208 bytes after \<open>a\<close>, inside the old
  predecessor, and spans the rest of the three blocks: it is allocated and has exactly
  58000 usable bytes, the predecessor keeps 24184 free bytes, and no byte of payload is
  copied, so the result comes from the merge and not from allocate, copy and free. The
  witness is the arena of \<^verbatim>\<open>test1.c\<close>, where the fallback's \<^verbatim>\<open>bestFitAllocRegion(58000)\<close> would
  have returned the region 86624 instead.
\<close>

theorem resizeRegionExtra_full_merge:
  assumes va: "validArena st (xs @ a # c # n # ys)"
    and ua: "usableSpace st a = 56504" and uc: "usableSpace st c = 256"
    and un: "usableSpace st n = 25400"
    and fa: "p_allocated st a = 0" and fn: "p_allocated st n = 0"
  shows "\<exists>st'. resizeRegionExtra (c + prefixSize) 58000 st
                = Some (Inr (a + 24208 + prefixSize, st'))
      \<and> validArena st' (xs @ a # (a + 24208) # ys)
      \<and> usableSpace st' (a + 24208) = 58000
      \<and> p_allocated st' (a + 24208) = 1
      \<and> usableSpace st' a = 24184 \<and> p_allocated st' a = 0
      \<and> bytes st' = bytes st"
proof -
  let ?bs = "xs @ a # c # n # ys"
  let ?S = "a + 24208"
  have ma: "a \<in> set ?bs" and mc: "c \<in> set ?bs" and mn: "n \<in> set ?bs" by simp_all
  note A = validArena_mem [OF va ma] and C = validArena_mem [OF va mc] and N = validArena_mem [OF va mn]
  have sa: "p_suffix st a = a + 56520" using ua by (simp add: usableSpace_def)
  have ca: "c = a + 56528"
    using getNextPrefix_succ(2) [of st xs a c "n # ys"] va sa by simp
  have sc: "p_suffix st c = a + 56800" using uc ca by (simp add: usableSpace_def)
  have na: "n = a + 56808"
    using getNextPrefix_succ(2) [of st "xs @ [a]" c n ys] va sc by simp
  have sn: "p_suffix st n = a + 82224" using un na by (simp add: usableSpace_def)
  have old: "resizeOldSize (c + 16) st = Inr 256"
    using validArena_oldSize [OF va mc] uc by simp
  have reg: "regionToPrefix (c + 16) = c" by (rule validArena_region [OF va mc])
  have gn: "getNextPrefix st c = Inr n"
    using getNextPrefix_succ(1) [of st "xs @ [a]" c n ys] va by simp
  have gp: "getPrevPrefix st c = a"
    using getPrevPrefix_pred [of st xs a c "n # ys"] va by simp
  have cu: "computeUsableSpace st a = Inr 56504" "computeUsableSpace st c = Inr 256"
    "computeUsableSpace st n = Inr 25400"
    using validArena_compute(1) [OF va ma] validArena_compute(1) [OF va mc]
      validArena_compute(1) [OF va mn] ua uc un by simp_all
  have nz: "a \<noteq> 0" "c \<noteq> 0" "n \<noteq> 0" using A C N by simp_all
  have branch: "resizeRegionExtra (c + 16) 58000 st
    = Some (mergeBothTrimPast st c a 56504 25400 256 58000)"
    using nz fa fn
    by (simp add: resizeRegionExtra_def old reg gn gp cu u64_def s32_def)
  \<comment> \<open>the split of the predecessor\<close>
  let ?st1 = "splitState st a ?S"
  have S64: "u64 (24208 + a) = ?S"
    using A sa by (intro trans [OF u64_id]) auto
  have sb: "splitBlock st a ?S = Inr ?st1"
    using sa by (intro splitBlock_ok [OF va ma]) auto
  have va1: "validArena ?st1 (xs @ a # ?S # c # n # ys)"
    using sa by (intro validArena_split [OF va]) auto
  let ?st2 = "?st1\<lparr>p_allocated := (p_allocated ?st1)(c := 0)\<rparr>"
  have va2: "validArena ?st2 (((xs @ [a]) @ [?S]) @ c # n # ys)"
    using validArena_allocated_upd [OF va1] by simp
  have f2: "p_allocated ?st2 c = 0" "p_allocated ?st2 ?S = 0" "p_allocated ?st2 n = 0"
    using fn ca na by (simp_all add: splitState_def)
  let ?st3 = "mergeState ?st2 ?S c"
  note s1 = coalescePrev_step [OF va2 f2(1)]
  have cp: "coalescePrev ?st2 c = Inr (?S, ?st3)"
    using s1(1) f2(2) by (simp add: butlast_append)
  have va3: "validArena ?st3 ((xs @ [a]) @ ?S # n # ys)"
    using s1(2) f2(2) by (simp add: butlast_append)
  have f3: "p_allocated ?st3 ?S = 0" "p_allocated ?st3 n = 0"
    using f2 by (simp_all add: mergeState_def)
  let ?st4 = "mergeState ?st3 ?S n"
  note s2 = coalesceNext_step [OF va3 f3(1)]
  have cn: "bindE (getNextPrefix ?st3 ?S)
      (\<lambda>next. if next \<noteq> 0 then coalescePrev ?st3 next else Inr (?S, ?st3)) = Inr (?S, ?st4)"
    using s2(1) f3(2) by simp
  have va4: "validArena ?st4 (xs @ a # ?S # ys)"
    using s2(2) f3(2) by simp
  have co: "coalesce ?st2 c = Inr (?S, ?st4)"
    using nz cp cn by (simp add: coalesce_def)
  let ?st' = "?st4\<lparr>p_allocated := (p_allocated ?st4)(?S := 1)\<rparr>"
  have S0: "?S \<noteq> 0" using A by simp
  have pr: "prefixToRegion ?S = ?S + 16"
    using A sa by (simp add: prefixToRegion_def u64_id)
  have mb: "mergeBothTrimPast st c a 56504 25400 256 58000 = Inr (?S + 16, ?st')"
    using nz S0
    by (simp add: mergeBothTrimPast_def u64_id s32_id align8_eq align8_int_eq S64 sb
        setAllocated_def co pr Let_def)
  have va': "validArena ?st' (xs @ a # ?S # ys)"
    by (rule validArena_allocated_upd [OF va4])
  have props: "usableSpace ?st' ?S = 58000" "p_allocated ?st' ?S = 1"
    "usableSpace ?st' a = 24184" "p_allocated ?st' a = 0" "bytes ?st' = bytes st"
    using ca na sn fa by (simp_all add: usableSpace_def mergeState_def splitState_def)
  show ?thesis
    using branch mb va' props by simp
qed

theorem resizeRegionExtra_full_merge_witness:
  "validArena arenaT ([] @ 4096 # 60624 # 60904 # [86328, 86608])
   \<and> usableSpace arenaT 4096 = 56504 \<and> usableSpace arenaT 60624 = 256
   \<and> usableSpace arenaT 60904 = 25400
   \<and> p_allocated arenaT 4096 = 0 \<and> p_allocated arenaT 60904 = 0
   \<and> (\<exists>st'. resizeRegionExtra (60624 + prefixSize) 58000 arenaT
                = Some (Inr (4096 + 24208 + prefixSize, st'))
      \<and> validArena st' ([] @ 4096 # (4096 + 24208) # [86328, 86608])
      \<and> usableSpace st' (4096 + 24208) = 58000
      \<and> p_allocated st' (4096 + 24208) = 1
      \<and> usableSpace st' 4096 = 24184 \<and> p_allocated st' 4096 = 0
      \<and> bytes st' = bytes arenaT)
   \<and> regionOf (resizeRegionExtra 60640 58000 arenaT) = Some 28320
   \<and> usableAfter (resizeRegionExtra 60640 58000 arenaT) 28304 = Some 58000
   \<and> regionOf (bestFitAllocRegion 58000 arenaT) = Some 86624"
proof -
  have va: "validArena arenaT ([] @ 4096 # 60624 # 60904 # [86328, 86608])"
    using validArena_arenaT by (simp add: blocksT_def)
  have h: "usableSpace arenaT 4096 = 56504" "usableSpace arenaT 60624 = 256"
    "usableSpace arenaT 60904 = 25400" "p_allocated arenaT 4096 = 0" "p_allocated arenaT 60904 = 0"
    by (simp_all add: arenaT_def mkArena_def usableSpace_def)
  have e: "regionOf (resizeRegionExtra 60640 58000 arenaT) = Some 28320"
    "usableAfter (resizeRegionExtra 60640 58000 arenaT) 28304 = Some 58000"
    "regionOf (bestFitAllocRegion 58000 arenaT) = Some 86624"
    by code_simp+
  show ?thesis
    using va h e resizeRegionExtra_full_merge [OF va h] by blast
qed


text \<open>
  C7, as stated, at a concrete input: with a predecessor and a successor of 1000 usable
  bytes each around a block of 256 bytes, \<^verbatim>\<open>resizeRegionExtra\<close> to 1512 returns the region
  4112 of the predecessor's own header: the predecessor is consumed whole, and the free
  remainder of 768 bytes, at 5632, is the tail of the successor. Trimming the predecessor
  (lines 457 to 477) would have returned the region 4904.
\<close>

theorem three_way_merge_choice_counterexample:
  "usableSpace arenaTie 4096 = 1000 \<and> usableSpace arenaTie 5400 = 1000
   \<and> regionOf (resizeRegionExtra 5136 1512 arenaTie) = Some 4112
   \<and> usableAfter (resizeRegionExtra 5136 1512 arenaTie) 4096 = Some 1512
   \<and> allocatedAfter (resizeRegionExtra 5136 1512 arenaTie) 4096 = Some 1
   \<and> usableAfter (resizeRegionExtra 5136 1512 arenaTie) 5632 = Some 768
   \<and> allocatedAfter (resizeRegionExtra 5136 1512 arenaTie) 5632 = Some 0
   \<and> regionOf (Some (mergeBothTrimNext arenaTie 5120 5400 1000 1000 256 1512)) = Some 4112
   \<and> regionOf (Some (mergeBothTrimPast arenaTie 5120 4096 1000 1000 256 1512)) = Some 4904"
  by code_simp


text \<open>
  C7, amended. In the three-way merge of \<^verbatim>\<open>resizeRegionExtra\<close> (both neighbours \<open>a\<close> and \<open>n\<close>
  of the block \<open>c\<close> free, neither enough alone, all three together enough; usable sizes
  multiples of 8) the call returns one block of exactly \<open>N = align8 newSize\<close> usable bytes
  and leaves one free remainder \<open>R\<close>; which neighbour keeps the remainder depends on the
  test \<^verbatim>\<open>usableSpacePast > usableSpaceNext\<close>:
  \<^item> when the predecessor has strictly more usable space than the successor, the
    remainder is the head of the predecessor: \<open>a\<close> stays free with \<open>R\<close> bytes and the block
    returned starts behind it;
  \<^item> otherwise, so also when the two are equal, the remainder is the tail of the
    successor: the block returned starts at \<open>a\<close> and the free block behind it has \<open>R\<close>
    bytes.

  When the request leaves nothing to carve (the code's test \<^verbatim>\<open>availSize >= aSize + 8\<close>
  fails) both neighbours are consumed whole. A remainder is stated for the requests where
  \<open>N\<close> exceeds the usable bytes of the block and of the neighbour consumed whole by at
  least \<open>2 * (prefixSize + suffixSize)\<close>: then both blocks that the split stamps have room
  for a prefix and a suffix.
\<close>

theorem three_way_merge_choice:
  assumes va: "validArena st (xs @ a # c # n # ys)"
    and fa: "p_allocated st a = 0" and fn: "p_allocated st n = 0"
    and al: "usableSpace st a mod 8 = 0" "usableSpace st c mod 8 = 0" "usableSpace st n mod 8 = 0"
    and sn: "usableSpace st c + usableSpace st n < newSize"
    and sp: "usableSpace st c + usableSpace st a < newSize"
    and sum: "newSize \<le> usableSpace st a + usableSpace st n + usableSpace st c"
  shows "let uA = usableSpace st a; uC = usableSpace st c; uN = usableSpace st n;
             h = prefixSize + suffixSize; N = align8 newSize; R = uA + uC + uN + h - N;
             whole = (\<exists>st'. resizeRegionExtra (c + prefixSize) newSize st
                               = Some (Inr (a + prefixSize, st'))
                        \<and> validArena st' (xs @ a # ys)
                        \<and> p_allocated st' a = 1 \<and> usableSpace st' a = uA + uC + uN + 2 * h
                        \<and> (\<forall>q\<in>set xs \<union> set ys. p_suffix st' q = p_suffix st q
                              \<and> p_allocated st' q = p_allocated st q))
         in (uN < uA \<longrightarrow>
               (N \<le> uC + uN + h \<longrightarrow> whole)
               \<and> (uC + uN + 2 * h \<le> N \<longrightarrow>
                    (\<exists>st'. resizeRegionExtra (c + prefixSize) newSize st
                               = Some (Inr (a + h + R + prefixSize, st'))
                        \<and> validArena st' (xs @ a # (a + h + R) # ys)
                        \<and> p_allocated st' a = 0 \<and> usableSpace st' a = R
                        \<and> p_allocated st' (a + h + R) = 1 \<and> usableSpace st' (a + h + R) = N
                        \<and> (\<forall>q\<in>set xs \<union> set ys. p_suffix st' q = p_suffix st q
                              \<and> p_allocated st' q = p_allocated st q))))
          \<and> (uA \<le> uN \<longrightarrow>
               (N = uA + uC + uN \<longrightarrow> whole)
               \<and> (uA + uC + 2 * h \<le> N \<and> N < uA + uC + uN \<longrightarrow>
                    (\<exists>st'. resizeRegionExtra (c + prefixSize) newSize st
                               = Some (Inr (a + prefixSize, st'))
                        \<and> validArena st' (xs @ a # (a + h + N) # ys)
                        \<and> p_allocated st' a = 1 \<and> usableSpace st' a = N
                        \<and> p_allocated st' (a + h + N) = 0 \<and> usableSpace st' (a + h + N) = R
                        \<and> (\<forall>q\<in>set xs \<union> set ys. p_suffix st' q = p_suffix st q
                              \<and> p_allocated st' q = p_allocated st q))))"
proof -
  define uA where "uA = usableSpace st a"
  define uC where "uC = usableSpace st c"
  define uN where "uN = usableSpace st n"
  define N where "N = align8 newSize"
  define R where "R = uA + uC + uN + 24 - N"
  let ?bs = "xs @ a # c # n # ys"
  have ma: "a \<in> set ?bs" and mc: "c \<in> set ?bs" and mn: "n \<in> set ?bs" by simp_all
  note A = validArena_mem [OF va ma] and C = validArena_mem [OF va mc]
    and Nm = validArena_mem [OF va mn]
  have ca: "c = p_suffix st a + 8"
    using getNextPrefix_succ(2) [of st xs a c "n # ys"] va by simp
  have na: "n = p_suffix st c + 8"
    using getNextPrefix_succ(2) [of st "xs @ [a]" c n ys] va by simp
  have sa: "p_suffix st a = a + 16 + uA" and sc: "p_suffix st c = c + 16 + uC"
    and sn': "p_suffix st n = n + 16 + uN"
    by (simp_all add: uA_def uC_def uN_def usableSpace_def)
  have cA: "c = a + 24 + uA" using ca sa by simp
  have nA: "n = a + 48 + uA + uC" using na sc cA by simp
  from va have sz: "arenaEnd st - arenaBegin st < 2 ^ 31" by (simp add: validArena_def)
  have u0: "0 \<le> uA" "0 \<le> uC" "0 \<le> uN"
    using A(7) C(7) Nm(7) by (simp_all add: uA_def uC_def uN_def)
  have tot: "uA + uC + uN + 72 < 2 ^ 31"
    using A(5) Nm(3) sz sa sn' nA by simp
  have m8: "uA mod 8 = 0" "uC mod 8 = 0" "uN mod 8 = 0"
    using al by (simp_all add: uA_def uC_def uN_def)
  have ns: "0 \<le> newSize" "newSize + 7 < 2 ^ 64" "uC + uN < newSize" "uC + uA < newSize"
    "newSize \<le> uA + uN + uC"
    using sn sp sum u0 tot by (simp_all add: uA_def uC_def uN_def)
  have Ne: "N = newSize + 7 - (newSize + 7) mod 8"
    unfolding N_def using ns by (simp add: align8_eq)
  have Nb: "newSize \<le> N" "N < newSize + 8" "N mod 8 = 0"
    unfolding Ne by presburger+
  have s8: "(uA + uN + uC) mod 8 = 0" "(uC + uN) mod 8 = 0" "(uC + uA) mod 8 = 0"
    "(uC + uN + 24) mod 8 = 0"
    using m8 by (simp_all add: mod8_add)
  have NS: "N \<le> uA + uN + uC" "uC + uN + 8 \<le> N" "uC + uA + 8 \<le> N"
    unfolding Ne using rnd8_le [OF s8(1) ns(5)] rnd8_gt [OF s8(2) ns(3)] rnd8_gt [OF s8(3) ns(4)]
    by simp_all
  have a64: "a + uA + uC + uN + 72 < 2 ^ 64" "8 \<le> a"
    using Nm(6) A(1) sn' nA by simp_all
  note br = three_way_branch [OF va fa fn sn sp sum, folded uA_def uC_def uN_def]
  have pr16: "c + prefixSize = c + 16" "a + prefixSize = a + 16" by simp_all
  have whole: "\<exists>st'. mergeTail c st = Inr (a + 16, st')
      \<and> validArena st' (xs @ a # ys)
      \<and> p_allocated st' a = 1 \<and> usableSpace st' a = uA + uC + uN + 48
      \<and> (\<forall>q\<in>set xs \<union> set ys. p_suffix st' q = p_suffix st q
            \<and> p_allocated st' q = p_allocated st q)"
  proof -
    from absorb_neighbours [OF va fa fn] obtain st' where
      r: "mergeTail c st = Inr (a + 16, st')" "validArena st' (xs @ a # ys)"
        "p_allocated st' a = 1" "p_suffix st' a = p_suffix st n"
        "\<forall>q\<in>set xs \<union> set ys. p_suffix st' q = p_suffix st q
            \<and> p_allocated st' q = p_allocated st q" by blast
    have "usableSpace st' a = uA + uC + uN + 48"
      using r(4) sn' nA by (simp add: usableSpace_def)
    with r show ?thesis by blast
  qed
  \<comment> \<open>the predecessor is the larger neighbour\<close>
  define M where "M = N - uC - uN - 24"
  have Mk: "s32 (align8 (u64 (newSize - uC - uN - prefixSize - suffixSize))) = M"
  proof -
    have e: "newSize - uC - uN - prefixSize - suffixSize = newSize - uC - uN - 24" by simp
    have "s32 (align8 (u64 (newSize - uC - uN - 24)))
        = newSize - uC - uN - 24 + 7 - (newSize - uC - uN - 24 + 7) mod 8"
      using ns tot u0 by (intro align8_cast) auto
    also have "\<dots> = M"
      unfolding M_def Ne using rnd8_shift [OF s8(4), of newSize] by (simp add: algebra_simps)
    finally show ?thesis unfolding e .
  qed
  have Mb: "- 16 \<le> M" "M \<le> uA - 24" "M mod 8 = 0"
    using NS mod8_diff [OF Nb(3) s8(4)] unfolding M_def by (simp_all add: algebra_simps)
  have PA: "align8_int (s32 (u64 (uA - M))) = uA - M"
  proof -
    have b: "0 \<le> uA - M" "uA - M < 2 ^ 31 - 8" using Mb u0 tot by simp_all
    then have "s32 (u64 (uA - M)) = uA - M" by (simp add: u64_id s32_id)
    moreover have "align8_int (uA - M) = uA - M + 7 - (uA - M + 7) mod 8"
      using b by (intro align8_int_eq) auto
    moreover have "uA - M + 7 - (uA - M + 7) mod 8 = uA - M"
      by (rule rnd8_id [OF mod8_diff [OF m8(1) Mb(3)]])
    ultimately show ?thesis by simp
  qed
  have PB: "u64 (s32 (uA - M + 8)) = uA - M + 8"
    using Mb u0 tot by (simp add: u64_id s32_id)
  have PS: "u64 (a + (uA - M) + prefixSize + suffixSize) = a + 24 + R"
  proof -
    have "a + (uA - M) + prefixSize + suffixSize = a + 24 + R"
      by (simp add: R_def M_def)
    moreover have "0 \<le> a + 24 + R" "a + 24 + R < 2 ^ 64"
      using a64 u0 NS Nb by (simp_all add: R_def)
    ultimately show ?thesis by (simp add: u64_id)
  qed
  note past = mergeBothTrimPast_unfold [OF Mk PA PB PS]
  have P1: "\<exists>st'. resizeRegionExtra (c + 16) newSize st = Some (Inr (a + 16, st'))
      \<and> validArena st' (xs @ a # ys)
      \<and> p_allocated st' a = 1 \<and> usableSpace st' a = uA + uC + uN + 48
      \<and> (\<forall>q\<in>set xs \<union> set ys. p_suffix st' q = p_suffix st q
            \<and> p_allocated st' q = p_allocated st q)"
    if "uN < uA" "N \<le> uC + uN + 24"
  proof -
    from that(2) have "M \<le> 0" by (simp add: M_def)
    then have "\<not> uA - M + 8 \<le> uA" by simp
    with br that(1) past have "resizeRegionExtra (c + 16) newSize st = Some (mergeTail c st)"
      by simp
    with whole show ?thesis by simp
  qed
  have P2: "\<exists>st'. resizeRegionExtra (c + 16) newSize st = Some (Inr (a + 24 + R + 16, st'))
      \<and> validArena st' (xs @ a # (a + 24 + R) # ys)
      \<and> p_allocated st' a = 0 \<and> usableSpace st' a = R
      \<and> p_allocated st' (a + 24 + R) = 1 \<and> usableSpace st' (a + 24 + R) = N
      \<and> (\<forall>q\<in>set xs \<union> set ys. p_suffix st' q = p_suffix st q
            \<and> p_allocated st' q = p_allocated st q)"
    if "uN < uA" "uC + uN + 48 \<le> N"
  proof -
    let ?S = "a + 24 + R"
    from that(2) have M24: "24 \<le> M" by (simp add: M_def)
    then have cond: "uA - M + 8 \<le> uA" by simp
    have RM: "R = uA - M" by (simp add: R_def M_def)
    have S: "a + 24 \<le> ?S" "?S + 16 \<le> p_suffix st a"
      using Mb M24 sa by (simp_all add: RM)
    let ?st1 = "splitState st a ?S"
    have sb: "splitBlock st a ?S = Inr ?st1" by (rule splitBlock_ok [OF va ma S])
    have va1: "validArena ?st1 ((xs @ [a]) @ ?S # c # n # ys)"
      using validArena_split [OF va S] by simp
    note sv = splitState_views [OF va S]
    have f1: "p_allocated ?st1 ?S = 0" "p_allocated ?st1 n = 0" "p_suffix ?st1 n = p_suffix st n"
      using sv(4,5) fn by simp_all
    from absorb_neighbours [OF va1 f1(1,2)] obtain st' where
      r: "mergeTail c ?st1 = Inr (?S + 16, st')" "validArena st' ((xs @ [a]) @ ?S # ys)"
        "p_allocated st' ?S = 1" "p_suffix st' ?S = p_suffix ?st1 n"
        "\<forall>q\<in>set (xs @ [a]) \<union> set ys. p_suffix st' q = p_suffix ?st1 q
            \<and> p_allocated st' q = p_allocated ?st1 q" by blast
    have run: "resizeRegionExtra (c + 16) newSize st = Some (Inr (?S + 16, st'))"
      using br that(1) past cond sb r(1) by simp
    have pa: "p_allocated st' a = 0" "usableSpace st' a = R"
      using r(5) sv(1,3) by (simp_all add: usableSpace_def)
    have pS: "usableSpace st' ?S = N"
      using r(4) f1(3) sn' nA by (simp add: usableSpace_def R_def)
    have oth: "\<forall>q\<in>set xs \<union> set ys. p_suffix st' q = p_suffix st q
            \<and> p_allocated st' q = p_allocated st q"
    proof
      fix q assume q: "q \<in> set xs \<union> set ys"
      then have q1: "q \<in> set (xs @ [a]) \<union> set ys" and q2: "q \<in> set xs \<union> set (c # n # ys)"
        by auto
      from r(5) q1 have "p_suffix st' q = p_suffix ?st1 q \<and> p_allocated st' q = p_allocated ?st1 q"
        by blast
      moreover from sv(5) q2
      have "p_suffix ?st1 q = p_suffix st q \<and> p_allocated ?st1 q = p_allocated st q" by blast
      ultimately
      show "p_suffix st' q = p_suffix st q \<and> p_allocated st' q = p_allocated st q" by simp
    qed
    from r(2) have "validArena st' (xs @ a # ?S # ys)" by simp
    with run r(3) pa pS oth show ?thesis by blast
  qed
  \<comment> \<open>the successor is at least as large\<close>
  define J where "J = N - uC - uA"
  have Jb: "8 \<le> J" "J \<le> uN" "J mod 8 = 0"
    using NS mod8_diff [OF Nb(3) s8(3)] unfolding J_def by (simp_all add: algebra_simps)
  have NM: "s32 (align8 (u64 (uC + uA))) = uC + uA"
  proof -
    have b: "0 \<le> uC + uA" "uC + uA < 2 ^ 31 - 8" using u0 tot by simp_all
    have "align8 (uC + uA) = uC + uA + 7 - (uC + uA + 7) mod 8"
      using b by (intro align8_eq) auto
    moreover have "uC + uA + 7 - (uC + uA + 7) mod 8 = uC + uA" by (rule rnd8_id [OF s8(3)])
    ultimately show ?thesis using b by (simp add: u64_id s32_id)
  qed
  have NA: "align8_int (s32 (u64 (newSize - (uC + uA)))) = J"
  proof -
    have b: "0 \<le> newSize - (uC + uA)" "newSize - (uC + uA) < 2 ^ 31 - 8"
      using ns u0 tot by simp_all
    then have "s32 (u64 (newSize - (uC + uA))) = newSize - (uC + uA)"
      by (simp add: u64_id s32_id)
    moreover have "align8_int (newSize - (uC + uA))
        = newSize - (uC + uA) + 7 - (newSize - (uC + uA) + 7) mod 8"
      using b by (intro align8_int_eq) auto
    moreover have "newSize - (uC + uA) + 7 - (newSize - (uC + uA) + 7) mod 8 = J"
      unfolding J_def Ne using rnd8_shift [OF s8(3), of newSize] by (simp add: algebra_simps)
    ultimately show ?thesis by simp
  qed
  have NB: "u64 (s32 (J + 8)) = J + 8"
    using Jb u0 tot by (simp add: u64_id s32_id)
  have NSl: "u64 (n + J - (prefixSize + suffixSize)) = a + 24 + N"
  proof -
    have "n + J - (prefixSize + suffixSize) = a + 24 + N"
      by (simp add: nA J_def)
    moreover have "0 \<le> a + 24 + N" "a + 24 + N < 2 ^ 64"
      using a64 u0 NS Nb ns by simp_all
    ultimately show ?thesis by (simp add: u64_id)
  qed
  note nxt = mergeBothTrimNext_unfold [OF NM NA NB NSl]
  have N1: "\<exists>st'. resizeRegionExtra (c + 16) newSize st = Some (Inr (a + 16, st'))
      \<and> validArena st' (xs @ a # ys)
      \<and> p_allocated st' a = 1 \<and> usableSpace st' a = uA + uC + uN + 48
      \<and> (\<forall>q\<in>set xs \<union> set ys. p_suffix st' q = p_suffix st q
            \<and> p_allocated st' q = p_allocated st q)"
    if "uA \<le> uN" "N = uA + uC + uN"
  proof -
    from that(2) have "J = uN" by (simp add: J_def)
    then have "\<not> J + 8 \<le> uN" by simp
    with br that(1) nxt have "resizeRegionExtra (c + 16) newSize st = Some (mergeTail c st)"
      by simp
    with whole show ?thesis by simp
  qed
  have N2: "\<exists>st'. resizeRegionExtra (c + 16) newSize st = Some (Inr (a + 16, st'))
      \<and> validArena st' (xs @ a # (a + 24 + N) # ys)
      \<and> p_allocated st' a = 1 \<and> usableSpace st' a = N
      \<and> p_allocated st' (a + 24 + N) = 0 \<and> usableSpace st' (a + 24 + N) = R
      \<and> (\<forall>q\<in>set xs \<union> set ys. p_suffix st' q = p_suffix st q
            \<and> p_allocated st' q = p_allocated st q)"
    if "uA \<le> uN" "uA + uC + 48 \<le> N" "N < uA + uC + uN"
  proof -
    let ?S = "a + 24 + N"
    from that(2) have J48: "48 \<le> J" by (simp add: J_def)
    from that(3) have "J < uN" by (simp add: J_def)
    with mod8_step [OF Jb(3) m8(3)] have cond: "J + 8 \<le> uN" by simp
    have SJ: "?S = n + J - 24" by (simp add: nA J_def)
    have S: "n + 24 \<le> ?S" "?S + 16 \<le> p_suffix st n"
      using J48 Jb sn' by (simp_all add: SJ)
    let ?st1 = "splitState st n ?S"
    have va0: "validArena st ((xs @ [a, c]) @ n # ys)" using va by simp
    have mn0: "n \<in> set ((xs @ [a, c]) @ n # ys)" by simp
    have sb: "splitBlock st n ?S = Inr ?st1" by (rule splitBlock_ok [OF va0 mn0 S])
    have va1: "validArena ?st1 (xs @ a # c # n # ?S # ys)"
      using validArena_split [OF va0 S] by simp
    note sv = splitState_views [OF va0 S]
    have f1: "p_allocated ?st1 a = 0" "p_allocated ?st1 n = 0"
      using sv(3,5) fa by simp_all
    from absorb_neighbours [OF va1 f1] obtain st' where
      r: "mergeTail c ?st1 = Inr (a + 16, st')" "validArena st' (xs @ a # ?S # ys)"
        "p_allocated st' a = 1" "p_suffix st' a = p_suffix ?st1 n"
        "\<forall>q\<in>set xs \<union> set (?S # ys). p_suffix st' q = p_suffix ?st1 q
            \<and> p_allocated st' q = p_allocated ?st1 q" by blast
    have run: "resizeRegionExtra (c + 16) newSize st = Some (Inr (a + 16, st'))"
      using br that(1) nxt cond sb r(1) by simp
    have pa: "usableSpace st' a = N"
      using r(4) sv(1) by (simp add: usableSpace_def)
    have pS: "p_allocated st' ?S = 0" "usableSpace st' ?S = R"
      using r(5) sv(2,4) sn' nA by (simp_all add: usableSpace_def R_def)
    have oth: "\<forall>q\<in>set xs \<union> set ys. p_suffix st' q = p_suffix st q
            \<and> p_allocated st' q = p_allocated st q"
    proof
      fix q assume q: "q \<in> set xs \<union> set ys"
      then have q1: "q \<in> set xs \<union> set (?S # ys)" and q2: "q \<in> set (xs @ [a, c]) \<union> set ys"
        by auto
      from r(5) q1 have "p_suffix st' q = p_suffix ?st1 q \<and> p_allocated st' q = p_allocated ?st1 q"
        by blast
      moreover from sv(5) q2
      have "p_suffix ?st1 q = p_suffix st q \<and> p_allocated ?st1 q = p_allocated st q" by blast
      ultimately
      show "p_suffix st' q = p_suffix st q \<and> p_allocated st' q = p_allocated st q" by simp
    qed
    from run r(2,3) pa pS oth show ?thesis by blast
  qed
  show ?thesis
    unfolding Let_def prefixSize_eq suffixSize_eq
    unfolding uA_def [symmetric] uC_def [symmetric] uN_def [symmetric] N_def [symmetric]
    using P1 P2 N1 N2 by (simp add: R_def)
qed

theorem three_way_merge_choice_witness:
  "validArena arenaTie ([] @ 4096 # 5120 # 5400 # [6424, 6456])
   \<and> p_allocated arenaTie 4096 = 0 \<and> p_allocated arenaTie 5400 = 0
   \<and> usableSpace arenaTie 4096 = 1000 \<and> usableSpace arenaTie 5120 = 256
   \<and> usableSpace arenaTie 5400 = 1000
   \<and> (\<exists>st'. resizeRegionExtra (5120 + prefixSize) 1512 arenaTie = Some (Inr (4112, st'))
         \<and> validArena st' [4096, 5632, 6424, 6456]
         \<and> p_allocated st' 4096 = 1 \<and> usableSpace st' 4096 = 1512
         \<and> p_allocated st' 5632 = 0 \<and> usableSpace st' 5632 = 768)
   \<and> (\<exists>st'. resizeRegionExtra (5120 + prefixSize) 2256 arenaTie = Some (Inr (4112, st'))
         \<and> validArena st' [4096, 6424, 6456]
         \<and> p_allocated st' 4096 = 1 \<and> usableSpace st' 4096 = 2304)
   \<and> validArena arenaT ([] @ 4096 # 60624 # 60904 # [86328, 86608])
   \<and> p_allocated arenaT 4096 = 0 \<and> p_allocated arenaT 60904 = 0
   \<and> usableSpace arenaT 4096 = 56504 \<and> usableSpace arenaT 60624 = 256
   \<and> usableSpace arenaT 60904 = 25400
   \<and> (\<exists>st'. resizeRegionExtra (60624 + prefixSize) 58000 arenaT = Some (Inr (28320, st'))
         \<and> validArena st' [4096, 28304, 86328, 86608]
         \<and> p_allocated st' 4096 = 0 \<and> usableSpace st' 4096 = 24184
         \<and> p_allocated st' 28304 = 1 \<and> usableSpace st' 28304 = 58000)"
proof -
  have va: "validArena arenaTie ([] @ 4096 # 5120 # 5400 # [6424, 6456])"
    by (simp add: validArena_def arenaTie_def mkArena_def)
  have f: "p_allocated arenaTie 4096 = 0" "p_allocated arenaTie 5400 = 0"
    by (simp_all add: arenaTie_def mkArena_def)
  have u: "usableSpace arenaTie 4096 = 1000" "usableSpace arenaTie 5120 = 256"
    "usableSpace arenaTie 5400 = 1000"
    by (simp_all add: arenaTie_def mkArena_def usableSpace_def)
  have a8: "align8 1512 = 1512" "align8 2256 = 2256" "align8 58000 = 58000"
    by (simp_all add: align8_eq)
  have T1: "\<exists>st'. resizeRegionExtra (5120 + prefixSize) 1512 arenaTie = Some (Inr (4112, st'))
         \<and> validArena st' [4096, 5632, 6424, 6456]
         \<and> p_allocated st' 4096 = 1 \<and> usableSpace st' 4096 = 1512
         \<and> p_allocated st' 5632 = 0 \<and> usableSpace st' 5632 = 768"
    using three_way_merge_choice [OF va f, of 1512]
    by (simp add: Let_def u a8) blast
  have T2: "\<exists>st'. resizeRegionExtra (5120 + prefixSize) 2256 arenaTie = Some (Inr (4112, st'))
         \<and> validArena st' [4096, 6424, 6456]
         \<and> p_allocated st' 4096 = 1 \<and> usableSpace st' 4096 = 2304"
    using three_way_merge_choice [OF va f, of 2256]
    by (simp add: Let_def u a8) blast
  have vaT: "validArena arenaT ([] @ 4096 # 60624 # 60904 # [86328, 86608])"
    using validArena_arenaT by (simp add: blocksT_def)
  have fT: "p_allocated arenaT 4096 = 0" "p_allocated arenaT 60904 = 0"
    by (simp_all add: arenaT_def mkArena_def)
  have uT: "usableSpace arenaT 4096 = 56504" "usableSpace arenaT 60624 = 256"
    "usableSpace arenaT 60904 = 25400"
    by (simp_all add: arenaT_def mkArena_def usableSpace_def)
  have T3: "\<exists>st'. resizeRegionExtra (60624 + prefixSize) 58000 arenaT = Some (Inr (28320, st'))
         \<and> validArena st' [4096, 28304, 86328, 86608]
         \<and> p_allocated st' 4096 = 0 \<and> usableSpace st' 4096 = 24184
         \<and> p_allocated st' 28304 = 1 \<and> usableSpace st' 28304 = 58000"
    using three_way_merge_choice [OF vaT fT, of 58000]
    by (simp add: Let_def uT a8) blast
  show ?thesis
    using va f u T1 T2 vaT fT uT T3 by blast
qed







text \<open>
  C9, as stated, at a concrete input: in the arena of \<^verbatim>\<open>test1.c\<close>, \<^verbatim>\<open>oldResizeRegion\<close> with
  a null region and \<open>newSize = 40\<close> returns the region 4112 of the first block, which was
  free before and is allocated afterwards.
\<close>

theorem resize_null_region_counterexample:
  "regionOf (oldResizeRegion 0 40 arenaT) = Some 4112
   \<and> allocatedAfter (oldResizeRegion 0 40 arenaT) 4096 = Some 1
   \<and> p_allocated arenaT 4096 = 0"
  by (simp add: eval_defs arenaT_def)

text \<open>
  C9, amended. With a null region and \<open>newSize = 0\<close> each of the three resize functions
  returns the null region and the state unchanged. With a null region and a positive
  \<open>newSize\<close>, \<^verbatim>\<open>oldResizeRegion\<close> takes the old size to be 0 and returns exactly what
  \<^verbatim>\<open>firstFitAllocRegion(newSize)\<close> returns: a new allocation, nothing copied, nothing freed.
\<close>

theorem resize_null_region:
  "(newSize = 0 \<longrightarrow>
      oldResizeRegion 0 newSize st = Some (Inr (0, st))
      \<and> resizeRegion 0 newSize st = Some (Inr (0, st))
      \<and> resizeRegionExtra 0 newSize st = Some (Inr (0, st)))
   \<and> (0 < newSize \<longrightarrow> oldResizeRegion 0 newSize st = firstFitAllocRegion newSize st)"
proof -
  have cf: "copyAndFree n 0 0 st1 = Inr (n, st1)" for n st1
    by (simp add: copyAndFree_def copyBytes_def freeRegion_def)
  have "0 < newSize \<Longrightarrow> oldResizeRegion 0 newSize st = firstFitAllocRegion newSize st"
    by (simp add: oldResizeRegion_def resizeOldSize_def u64_def cf bindO_return)
  then show ?thesis
    by (simp add: oldResizeRegion_def resizeRegion_def resizeRegionExtra_def resizeOldSize_def u64_def)
qed

theorem resize_null_region_witness:
  "oldResizeRegion 0 0 arenaT = Some (Inr (0, arenaT))
   \<and> resizeRegion 0 0 arenaT = Some (Inr (0, arenaT))
   \<and> resizeRegionExtra 0 0 arenaT = Some (Inr (0, arenaT))
   \<and> (0::int) < 40 \<and> oldResizeRegion 0 40 arenaT = firstFitAllocRegion 40 arenaT"
  using resize_null_region [of 0 arenaT] resize_null_region [of 40 arenaT] by simp


text \<open>
  C10. \<^verbatim>\<open>resizeRegion\<close> and \<^verbatim>\<open>resizeRegionExtra\<close> call \<^verbatim>\<open>computeUsableSpace\<close> on the successor
  before testing it: for the last block of a valid arena, with usable space below
  \<open>newSize\<close>, both end in the null dereference. \<^verbatim>\<open>resizeRegionExtra\<close> does the same with the
  predecessor: for the first block, when it has a successor that is allocated or too small
  to merge with, the call ends in the null dereference as well.
\<close>

theorem resize_null_neighbour:
  assumes va: "validArena st bs" and mem: "p \<in> set bs" and small: "usableSpace st p < newSize"
  shows "(p = last bs \<longrightarrow>
            resizeRegion (p + prefixSize) newSize st = Some (Inl NullDeref)
            \<and> resizeRegionExtra (p + prefixSize) newSize st = Some (Inl NullDeref))
       \<and> (p = hd bs \<and> p \<noteq> last bs
            \<and> (p_allocated st (p_suffix st p + suffixSize) \<noteq> 0
                \<or> usableSpace st (p_suffix st p + suffixSize) + usableSpace st p < newSize) \<longrightarrow>
            resizeRegionExtra (p + prefixSize) newSize st = Some (Inl NullDeref))"
proof -
  note old = validArena_oldSize [OF va mem]
  note reg = validArena_region [OF va mem]
  have cu0: "computeUsableSpace st 0 = Inl NullDeref"
    by (simp add: computeUsableSpace_def)
  have 1: "resizeRegion (p + 16) newSize st = Some (Inl NullDeref)
     \<and> resizeRegionExtra (p + 16) newSize st = Some (Inl NullDeref)" if "p = last bs"
  proof -
    have gl: "getNextPrefix st p = Inr 0"
      using getNextPrefix_last [OF va] that by simp
    show ?thesis
      using small by (simp add: resizeRegion_def resizeRegionExtra_def old reg cu0 gl)
  qed
  have 2: "resizeRegionExtra (p + 16) newSize st = Some (Inl NullDeref)"
    if hd: "p = hd bs" and nl: "p \<noteq> last bs"
      and nm: "p_allocated st (p_suffix st p + 8) \<noteq> 0
                \<or> usableSpace st (p_suffix st p + 8) + usableSpace st p < newSize"
  proof -
    from va hd nl obtain n ys where bs: "bs = p # n # ys"
      by (cases bs; cases "tl bs"; auto simp: validArena_def)
    with va have n: "n = p_suffix st p + 8" "n \<in> set bs"
      by (auto simp: validArena_def)
    note mn = validArena_mem [OF va n(2)]
    note mp = validArena_mem [OF va mem]
    have gn: "getNextPrefix st p = Inr n"
      using mn n(1) by (simp add: getNextPrefix_def validArena_compute [OF va mem])
    from va have sz: "arenaEnd st - arenaBegin st < 2 ^ 31"
      by (simp add: validArena_def)
    have "0 \<le> usableSpace st n + usableSpace st p" "usableSpace st n + usableSpace st p < 2 ^ 31"
      using mn mp sz n(1) by (simp_all add: usableSpace_def)
    then have sum: "u64 (s32 (u64 (usableSpace st n + usableSpace st p))) = usableSpace st n + usableSpace st p"
      by (simp add: u64_id s32_id)
    have n0: "n \<noteq> 0" using mn by simp
    have gp: "getPrevPrefix st p = 0"
      using getPrevPrefix_first [OF va] hd by simp
    have nm': "p_allocated st n \<noteq> 0 \<or> usableSpace st n + usableSpace st p < newSize"
      using nm n(1) by simp
    show ?thesis
      using small nm' n0
      by (auto simp add: resizeRegionExtra_def old reg cu0 validArena_compute [OF va n(2)]
            validArena_compute [OF va mem] sum gn gp)
  qed
  show ?thesis
    unfolding prefixSize_eq suffixSize_eq using 1 2 by blast
qed

theorem resize_null_neighbour_witness:
  "validArena arenaL blocksL \<and> 4376 \<in> set blocksL \<and> usableSpace arenaL 4376 < 2000000
   \<and> 4376 = last blocksL
   \<and> resizeRegion (4376 + prefixSize) 2000000 arenaL = Some (Inl NullDeref)
   \<and> resizeRegionExtra (4376 + prefixSize) 2000000 arenaL = Some (Inl NullDeref)
   \<and> 4096 \<in> set blocksL \<and> usableSpace arenaL 4096 < 300
   \<and> 4096 = hd blocksL \<and> 4096 \<noteq> last blocksL
   \<and> p_allocated arenaL (p_suffix arenaL 4096 + suffixSize) \<noteq> 0
   \<and> resizeRegionExtra (4096 + prefixSize) 300 arenaL = Some (Inl NullDeref)"
proof -
  have va: "validArena arenaL blocksL"
    by (simp add: validArena_def arenaL_def blocksL_def mkArena_def)
  show ?thesis
    using va resize_null_neighbour [OF va, of 4376 2000000]
      resize_null_neighbour [OF va, of 4096 300]
    by (simp add: arenaL_def blocksL_def mkArena_def usableSpace_def)
qed


end
